theory Spec2Isabelle
  imports Main "HOL-Library.Multiset"
begin

section \<open>JavaScript values\<close>

text \<open>
  The script \<^verbatim>\<open>day_activity_2.js\<close> works on plain JavaScript objects whose fields hold
  primitive values. A missing field reads as \<^verbatim>\<open>undefined\<close>. Numbers are integers here
  (\<^verbatim>\<open>iid\<close>, time values). A string is the list of the bytes of its UTF-8 encoding.
\<close>

datatype jsval = JUndefined | JNull | JBool bool | JNum int | JStr string

fun digits_of :: "nat \<Rightarrow> string" where
  "digits_of n =
     (if n < 10 then [char_of (48 + n)]
      else digits_of (n div 10) @ [char_of (48 + n mod 10)])"

declare digits_of.simps [simp del]

text \<open>
  \<^verbatim>\<open>`${v}`\<close>: the string a template literal puts in for a value. For a number these are
  its decimal digits, which is what the language prints for an integer below \<open>10\<^sup>2\<^sup>1\<close> in
  magnitude; the numbers of the script, \<^verbatim>\<open>iid\<close> and time values, are far below.
\<close>

fun ToString :: "jsval \<Rightarrow> string" where
  "ToString JUndefined = ''undefined''"
| "ToString JNull = ''null''"
| "ToString (JBool b) = (if b then ''true'' else ''false'')"
| "ToString (JNum n) = (if n < 0 then CHR ''-'' # digits_of (nat (- n)) else digits_of (nat n))"
| "ToString (JStr s) = s"

text \<open>
  The separator of a merge request key, byte for byte as the source file has it between
  \<^verbatim>\<open>${item.source}\<close> and \<^verbatim>\<open>${item.target}\<close>: a space, eight bytes, a space.
\<close>

definition arrow :: string where
  "arrow = [CHR '' '', CHR 0xC3, CHR 0xA2, CHR 0xE2, CHR 0x80, CHR 0xA0, CHR 0xE2, CHR 0x80,
            CHR 0x99, CHR '' '']"

section \<open>Activities\<close>

text \<open>
  \<^verbatim>\<open>getMergeRequests\<close> maps every merge request of the API to an object of six fields.
\<close>

record merge_request =
  iid :: jsval
  sha :: jsval
  source :: jsval
  target :: jsval
  title :: jsval
  date :: jsval

text \<open>
  An entry of the batch. A merge request entry is \<^verbatim>\<open>{...mr, type: "Merge Request", project}\<close>:
  the six fields and two more, the commit fields undefined. A commit entry is the object
  pushed by \<^verbatim>\<open>getCommitsWithCorrectBranch\<close>, with \<^verbatim>\<open>project\<close> set afterwards by the
  main loop; it has no \<^verbatim>\<open>iid\<close>, \<^verbatim>\<open>source\<close> or \<^verbatim>\<open>target\<close>.
\<close>

record activity = merge_request +
  type :: jsval
  project :: jsval
  branch :: jsval
  target_branch :: jsval
  from_merge_request :: jsval
  mr_source :: jsval
  mr_target :: jsval

definition mr_key :: "activity \<Rightarrow> string" where
  "mr_key item = ToString (source item) @ arrow @ ToString (target item)"

section \<open>Dates and sorting\<close>

text \<open>
  \<^verbatim>\<open>new Date(v)\<close> as a time value in milliseconds, \<open>None\<close> for an invalid date (NaN).
  \<^verbatim>\<open>Date.parse\<close> on strings is the engine's and is a parameter \<open>parse\<close> of everything
  that sorts. The other cases are fixed by the language: \<^verbatim>\<open>undefined\<close> is invalid,
  \<^verbatim>\<open>null\<close> and booleans convert to numbers, a number is clipped to the range of
  time values.
\<close>

definition TimeClip :: "int \<Rightarrow> int option" where
  "TimeClip t = (if \<bar>t\<bar> > 8640000000000000 then None else Some t)"

fun new_Date :: "(string \<Rightarrow> int option) \<Rightarrow> jsval \<Rightarrow> int option" where
  "new_Date parse JUndefined = None"
| "new_Date parse JNull = TimeClip 0"
| "new_Date parse (JBool b) = TimeClip (if b then 1 else 0)"
| "new_Date parse (JNum n) = TimeClip n"
| "new_Date parse (JStr s) = parse s"

text \<open>
  One \<open>parse\<close> to run examples with: the form \<^verbatim>\<open>YYYY-MM-DDTHH:mm:ssZ\<close> of the language's
  date-time format, in UTC; every other string is rejected. The theorems below hold for
  any \<open>parse\<close>.
\<close>

definition is_digit :: "char \<Rightarrow> bool" where
  "is_digit c = (48 \<le> (of_char c :: nat) \<and> (of_char c :: nat) \<le> 57)"

fun number_of :: "string \<Rightarrow> nat \<Rightarrow> nat option" where
  "number_of [] acc = Some acc"
| "number_of (c # cs) acc =
     (if is_digit c then number_of cs (acc * 10 + (of_char c - 48)) else None)"

definition is_leap :: "nat \<Rightarrow> bool" where
  "is_leap y = (y mod 4 = 0 \<and> (y mod 100 \<noteq> 0 \<or> y mod 400 = 0))"

definition days_in_month :: "nat \<Rightarrow> nat \<Rightarrow> nat" where
  "days_in_month y m =
     (if m = 2 then (if is_leap y then 29 else 28)
      else if m = 4 \<or> m = 6 \<or> m = 9 \<or> m = 11 then 30 else 31)"

definition days_from_civil :: "nat \<Rightarrow> nat \<Rightarrow> nat \<Rightarrow> int" where
  "days_from_civil y m d =
     (let y' = int y - (if m \<le> 2 then 1 else 0);
          era = y' div 400;
          yoe = y' - era * 400;
          doy = (153 * (int m + (if m > 2 then - 3 else 9)) + 2) div 5 + int d - 1;
          doe = yoe * 365 + yoe div 4 - yoe div 100 + doy
      in era * 146097 + doe - 719468)"

definition Date_parse_utc :: "string \<Rightarrow> int option" where
  "Date_parse_utc s =
     (if length s = 20 \<and> s ! 4 = CHR ''-'' \<and> s ! 7 = CHR ''-'' \<and> s ! 10 = CHR ''T''
         \<and> s ! 13 = CHR '':'' \<and> s ! 16 = CHR '':'' \<and> s ! 19 = CHR ''Z'' then
        (case (number_of (take 4 s) 0, number_of (take 2 (drop 5 s)) 0,
               number_of (take 2 (drop 8 s)) 0, number_of (take 2 (drop 11 s)) 0,
               number_of (take 2 (drop 14 s)) 0, number_of (take 2 (drop 17 s)) 0) of
           (Some y, Some m, Some d, Some h, Some mi, Some sec) \<Rightarrow>
             if 1 \<le> m \<and> m \<le> 12 \<and> 1 \<le> d \<and> d \<le> days_in_month y m \<and> h \<le> 23 \<and> mi \<le> 59
                \<and> sec \<le> 59
             then Some ((((days_from_civil y m d * 24 + int h) * 60 + int mi) * 60 + int sec) * 1000)
             else None
         | _ \<Rightarrow> None)
      else None)"

text \<open>\<^verbatim>\<open>x - y\<close> on two dates: NaN as soon as one of them is invalid.\<close>

fun date_minus :: "int option \<Rightarrow> int option \<Rightarrow> int option" where
  "date_minus (Some x) (Some y) = Some (x - y)"
| "date_minus _ _ = None"

text \<open>
  \<^verbatim>\<open>Array.prototype.sort(comparefn)\<close>. The language fixes that a NaN from the comparator
  counts as \<open>0\<close>, that the sort is stable, and, for a consistent comparator, that the
  result is ordered by it; there is then one possible result, and it is the one this
  insertion sort computes. An element \<open>x\<close> that stood before \<open>y\<close> stays before it unless
  \<open>comparefn(x, y) > 0\<close>. A comparator that is NaN on every pair is consistent: nothing
  moves. One that is NaN on some pairs only is not, and the language then leaves the order
  to the engine; the list computed here is a permutation of the input, as the engine's
  is, and nothing below uses its order in that case.
\<close>

definition SortCompare :: "('a \<Rightarrow> 'a \<Rightarrow> int option) \<Rightarrow> 'a \<Rightarrow> 'a \<Rightarrow> int" where
  "SortCompare comparefn x y = (case comparefn x y of None \<Rightarrow> 0 | Some v \<Rightarrow> v)"

fun js_insert :: "('a \<Rightarrow> 'a \<Rightarrow> int option) \<Rightarrow> 'a \<Rightarrow> 'a list \<Rightarrow> 'a list" where
  "js_insert comparefn x [] = [x]"
| "js_insert comparefn x (y # ys) =
     (if SortCompare comparefn x y > 0 then y # js_insert comparefn x ys else x # y # ys)"

fun js_sort :: "('a \<Rightarrow> 'a \<Rightarrow> int option) \<Rightarrow> 'a list \<Rightarrow> 'a list" where
  "js_sort comparefn [] = []"
| "js_sort comparefn (x # xs) = js_insert comparefn x (js_sort comparefn xs)"

text \<open>\<^verbatim>\<open>(a, b) => new Date(b.date) - new Date(a.date)\<close>\<close>

definition by_date_desc :: "(string \<Rightarrow> int option) \<Rightarrow> activity \<Rightarrow> activity \<Rightarrow> int option" where
  "by_date_desc parse a b = date_minus (new_Date parse (date b)) (new_Date parse (date a))"

section \<open>The structured record\<close>

text \<open>
  The file \<^verbatim>\<open>daily_activity.json\<close>: absent (\<open>None\<close>), or present with a content that
  \<^verbatim>\<open>JSON.parse\<close> rejects, or a document. Of a document only \<^verbatim>\<open>activities\<close> is read; it
  is \<open>None\<close> when the field is missing or falsy, and otherwise an array of objects, which
  is what the script itself writes. The contents of every other shape are the matter of
  the next section.
\<close>

datatype json_content = Unparseable string | Document "activity list option"

type_synonym json_file = "json_content option"

datatype exn = SyntaxError string | TypeError | RequestFailed

fun message :: "exn \<Rightarrow> string" where
  "message (SyntaxError msg) = msg"
| "message TypeError = ''TypeError''"
| "message RequestFailed = ''Request failed''"

datatype log =
    Warn_could_not_parse string
  | Info_no_new_activity
  | Updated nat
  | Warn_mr_commits jsval
  | Warn_branches
  | Warn_skipped_mrs jsval

record existing =
  shas :: "jsval set"
  mrs :: "string set"
  data :: "activity list"

definition existing_empty :: existing where
  "existing_empty = \<lparr>shas = {}, mrs = {}, data = []\<rparr>"

definition JSON_parse :: "json_content \<Rightarrow> exn + activity list option" where
  "JSON_parse c = (case c of Unparseable msg \<Rightarrow> Inl (SyntaxError msg) | Document d \<Rightarrow> Inr d)"

text \<open>The body of \<^verbatim>\<open>jsonData.activities.forEach\<close>.\<close>

definition add_identity :: "existing \<Rightarrow> activity \<Rightarrow> existing" where
  "add_identity ex item =
     (if type item = JStr ''Commit'' then ex\<lparr>shas := insert (sha item) (shas ex)\<rparr>
      else if type item = JStr ''Merge Request'' then ex\<lparr>mrs := insert (mr_key item) (mrs ex)\<rparr>
      else ex)"

text \<open>
  \<^verbatim>\<open>extractExistingFromJson\<close> returns the identities and what it wrote to the console.
  The \<^verbatim>\<open>try\<close> block is the \<open>case\<close> on \<open>JSON_parse\<close>: the exception leaves \<open>existing\<close>
  as it was initialised.
\<close>

definition extractExistingFromJson :: "json_file \<Rightarrow> existing \<times> log list" where
  "extractExistingFromJson file =
     (case file of
        None \<Rightarrow> (existing_empty, [])
      | Some content \<Rightarrow>
          (case JSON_parse content of
             Inl e \<Rightarrow> (existing_empty, [Warn_could_not_parse (message e)])
           | Inr None \<Rightarrow> (existing_empty, [])
           | Inr (Some activities) \<Rightarrow>
               (foldl add_identity (existing_empty\<lparr>data := activities\<rparr>) activities, [])))"

text \<open>The object \<^verbatim>\<open>output\<close> that \<^verbatim>\<open>saveAsJson\<close> serialises.\<close>

record json_output =
  generated_at :: string
  total_activities :: nat
  summary_commits :: nat
  summary_merge_requests :: nat
  activities :: "activity list"

text \<open>The filter of \<^verbatim>\<open>saveAsJson\<close>: which items of the batch are new.\<close>

definition is_new :: "existing \<Rightarrow> activity \<Rightarrow> bool" where
  "is_new ex item =
     (if type item = JStr ''Commit'' then sha item \<notin> shas ex
      else if type item = JStr ''Merge Request'' then mr_key item \<notin> mrs ex
      else True)"

record save_result =
  returned :: "activity list"
  filteredData :: "activity list"
  written :: "json_output option"
  console :: "log list"

definition saveAsJson ::
  "(string \<Rightarrow> int option) \<Rightarrow> string \<Rightarrow> activity list \<Rightarrow> json_file \<Rightarrow> save_result" where
  "saveAsJson parse now batch file =
     (let (ex, warnings) = extractExistingFromJson file;
          filtered = filter (is_new ex) batch
      in if filtered = [] \<and> data ex \<noteq> [] then
           \<lparr>returned = data ex, filteredData = filtered, written = None,
            console = warnings @ [Info_no_new_activity]\<rparr>
         else
           let allData = js_sort (by_date_desc parse) (data ex @ filtered);
               out = \<lparr>generated_at = now,
                      total_activities = length allData,
                      summary_commits = length (filter (\<lambda>item. type item = JStr ''Commit'') allData),
                      summary_merge_requests =
                        length (filter (\<lambda>item. type item = JStr ''Merge Request'') allData),
                      activities = allData\<rparr>
           in \<lparr>returned = allData, filteredData = filtered, written = Some out,
               console = warnings @ [Updated (length filtered)]\<rparr>)"

text \<open>The file after the call: rewritten with \<open>output\<close>, or left as it was.\<close>

definition file_after :: "json_file \<Rightarrow> save_result \<Rightarrow> json_file" where
  "file_after file r =
     (case written r of None \<Rightarrow> file | Some out \<Rightarrow> Some (Document (Some (activities out))))"

section \<open>The structured record, whatever the file holds\<close>

text \<open>
  The section before describes \<^verbatim>\<open>extractExistingFromJson\<close> and \<^verbatim>\<open>saveAsJson\<close> on a file
  whose \<^verbatim>\<open>activities\<close>, when present, is an array of objects. This section describes the
  two functions on every content that \<^verbatim>\<open>JSON.parse\<close> accepts; the names carry the suffix
  \<open>_any\<close>. On the contents of the section before the two descriptions agree.
\<close>

text \<open>
  An element of a parsed array: an object, or a primitive value, \<^verbatim>\<open>null\<close> among them.
  Reading a field of \<^verbatim>\<open>null\<close> throws a TypeError; reading one of another primitive gives
  \<^verbatim>\<open>undefined\<close>.
\<close>

datatype element = Obj activity | Prim jsval

fun read :: "(activity \<Rightarrow> jsval) \<Rightarrow> element \<Rightarrow> exn + jsval" where
  "read f (Obj a) = Inr (f a)"
| "read f (Prim JNull) = Inl TypeError"
| "read f (Prim JUndefined) = Inl TypeError"
| "read f (Prim p) = Inr JUndefined"

text \<open>
  A truthy value that is no array (a number, a string, \<^verbatim>\<open>true\<close>, an object) has no
  \<^verbatim>\<open>forEach\<close>. Of such a value \<^verbatim>\<open>saveAsJson\<close> observes two things, and they describe it
  here: whether its \<^verbatim>\<open>length\<close> is greater than \<open>0\<close>, and what spreading it gives, \<open>None\<close> when
  it is not iterable.
\<close>

record non_array =
  positive_length :: bool
  spread :: "element list option"

datatype data_value = Elements "element list" | Other non_array

text \<open>
  What \<^verbatim>\<open>JSON.parse\<close> returns: \<^verbatim>\<open>null\<close>, or a value whose \<^verbatim>\<open>activities\<close> is missing or falsy
  (\<open>None\<close>) or is the given truthy value.
\<close>

datatype parsed = Root_null | Root "data_value option"

datatype any_content = Rejected string | Parsed parsed

type_synonym any_file = "any_content option"

record existing_any =
  shas_any :: "jsval set"
  mrs_any :: "string set"
  data_any :: data_value

definition existing_any_empty :: existing_any where
  "existing_any_empty = \<lparr>shas_any = {}, mrs_any = {}, data_any = Elements []\<rparr>"

definition JSON_parse_any :: "any_content \<Rightarrow> exn + parsed" where
  "JSON_parse_any c = (case c of Rejected msg \<Rightarrow> Inl (SyntaxError msg) | Parsed v \<Rightarrow> Inr v)"

text \<open>
  \<^verbatim>\<open>jsonData.activities.forEach\<close> on an array: it stops at the first element whose fields
  cannot be read, with the identities added so far.
\<close>

fun add_identities :: "existing_any \<Rightarrow> element list \<Rightarrow> existing_any \<times> exn option" where
  "add_identities ex [] = (ex, None)"
| "add_identities ex (item # items) =
     (case read type item of
        Inl e \<Rightarrow> (ex, Some e)
      | Inr ty \<Rightarrow>
          if ty = JStr ''Commit'' then
            (case read sha item of
               Inl e \<Rightarrow> (ex, Some e)
             | Inr s \<Rightarrow> add_identities (ex\<lparr>shas_any := insert s (shas_any ex)\<rparr>) items)
          else if ty = JStr ''Merge Request'' then
            (case read source item of
               Inl e \<Rightarrow> (ex, Some e)
             | Inr src \<Rightarrow>
                 (case read target item of
                    Inl e \<Rightarrow> (ex, Some e)
                  | Inr tgt \<Rightarrow>
                      add_identities
                        (ex\<lparr>mrs_any := insert (ToString src @ arrow @ ToString tgt) (mrs_any ex)\<rparr>)
                        items))
          else add_identities ex items)"

text \<open>
  \<^verbatim>\<open>extractExistingFromJson\<close> on any content. \<^verbatim>\<open>existing.data\<close> is assigned before
  \<^verbatim>\<open>forEach\<close> is called, so it keeps the value when \<^verbatim>\<open>forEach\<close> throws.
\<close>

definition extractExistingFromJson_any :: "any_file \<Rightarrow> existing_any \<times> log list" where
  "extractExistingFromJson_any file =
     (case file of
        None \<Rightarrow> (existing_any_empty, [])
      | Some content \<Rightarrow>
          (case JSON_parse_any content of
             Inl e \<Rightarrow> (existing_any_empty, [Warn_could_not_parse (message e)])
           | Inr Root_null \<Rightarrow> (existing_any_empty, [Warn_could_not_parse (message TypeError)])
           | Inr (Root None) \<Rightarrow> (existing_any_empty, [])
           | Inr (Root (Some (Other v))) \<Rightarrow>
               (existing_any_empty\<lparr>data_any := Other v\<rparr>,
                [Warn_could_not_parse (message TypeError)])
           | Inr (Root (Some (Elements els))) \<Rightarrow>
               (case add_identities (existing_any_empty\<lparr>data_any := Elements els\<rparr>) els of
                  (ex, None) \<Rightarrow> (ex, [])
                | (ex, Some e) \<Rightarrow> (ex, [Warn_could_not_parse (message e)]))))"

record json_output_any =
  generated_at_any :: string
  total_activities_any :: nat
  summary_commits_any :: nat
  summary_merge_requests_any :: nat
  activities_any :: "element list"

record save_result_any =
  returned_any :: data_value
  filteredData_any :: "activity list"
  written_any :: "json_output_any option"
  console_any :: "log list"

definition is_new_any :: "existing_any \<Rightarrow> activity \<Rightarrow> bool" where
  "is_new_any ex item =
     (if type item = JStr ''Commit'' then sha item \<notin> shas_any ex
      else if type item = JStr ''Merge Request'' then mr_key item \<notin> mrs_any ex
      else True)"

text \<open>
  \<^verbatim>\<open>saveAsJson\<close> on any content. It throws where it spreads a value that is not iterable.
  The comparator of the sort reads \<^verbatim>\<open>date\<close> of the elements it compares, and the two
  filters of the summary read \<^verbatim>\<open>type\<close> of every element: an element whose fields cannot be
  read makes it throw as well.
\<close>

definition throws :: "element \<Rightarrow> bool" where
  "throws e = (case read type e of Inl x \<Rightarrow> True | Inr v \<Rightarrow> False)"

definition field :: "(activity \<Rightarrow> jsval) \<Rightarrow> element \<Rightarrow> jsval" where
  "field f e = (case read f e of Inl x \<Rightarrow> JUndefined | Inr v \<Rightarrow> v)"

definition by_date_desc_any :: "(string \<Rightarrow> int option) \<Rightarrow> element \<Rightarrow> element \<Rightarrow> int option" where
  "by_date_desc_any parse a b =
     date_minus (new_Date parse (field date b)) (new_Date parse (field date a))"

definition saveAsJson_any ::
  "(string \<Rightarrow> int option) \<Rightarrow> string \<Rightarrow> activity list \<Rightarrow> any_file \<Rightarrow> exn + save_result_any" where
  "saveAsJson_any parse now batch file =
     (let (ex, warnings) = extractExistingFromJson_any file;
          filtered = filter (is_new_any ex) batch;
          has_length = (case data_any ex of Elements els \<Rightarrow> els \<noteq> [] | Other v \<Rightarrow> positive_length v)
      in if filtered = [] \<and> has_length then
           Inr \<lparr>returned_any = data_any ex, filteredData_any = filtered, written_any = None,
                console_any = warnings @ [Info_no_new_activity]\<rparr>
         else
           (case (case data_any ex of Elements els \<Rightarrow> Some els | Other v \<Rightarrow> spread v) of
              None \<Rightarrow> Inl TypeError
            | Some els \<Rightarrow>
                (let combined = els @ map Obj filtered
                 in if list_ex throws combined then Inl TypeError
                    else
                      let allData = js_sort (by_date_desc_any parse) combined;
                          out = \<lparr>generated_at_any = now,
                                 total_activities_any = length allData,
                                 summary_commits_any =
                                   length (filter (\<lambda>item. field type item = JStr ''Commit'') allData),
                                 summary_merge_requests_any =
                                   length (filter (\<lambda>item. field type item = JStr ''Merge Request'')
                                     allData),
                                 activities_any = allData\<rparr>
                      in Inr \<lparr>returned_any = Elements allData, filteredData_any = filtered,
                              written_any = Some out,
                              console_any = warnings @ [Updated (length filtered)]\<rparr>)))"

text \<open>
  The contents of the section before among all contents, and the results of
  \<^verbatim>\<open>saveAsJson\<close> there among all results.
\<close>

definition any_of :: "json_content \<Rightarrow> any_content" where
  "any_of c =
     (case c of
        Unparseable msg \<Rightarrow> Rejected msg
      | Document d \<Rightarrow> Parsed (Root (map_option (\<lambda>xs. Elements (map Obj xs)) d)))"

definition output_any_of :: "json_output \<Rightarrow> json_output_any" where
  "output_any_of out =
     \<lparr>generated_at_any = generated_at out,
      total_activities_any = total_activities out,
      summary_commits_any = summary_commits out,
      summary_merge_requests_any = summary_merge_requests out,
      activities_any = map Obj (activities out)\<rparr>"

definition result_any_of :: "save_result \<Rightarrow> save_result_any" where
  "result_any_of r =
     \<lparr>returned_any = Elements (map Obj (returned r)), filteredData_any = filteredData r,
      written_any = map_option output_any_of (written r), console_any = console r\<rparr>"

section \<open>Collecting the commits of one project\<close>

text \<open>
  What the API returns for one project. A request that fails (\<^verbatim>\<open>fetchAllPages\<close> throws) is
  \<open>None\<close>. The commits of a merge request are looked up by its \<^verbatim>\<open>iid\<close>, those of a branch
  by its name.
\<close>

record raw_commit =
  c_id :: jsval
  c_title :: jsval
  c_created_at :: jsval
  c_author_email :: jsval

record remote_project =
  name_with_namespace :: jsval
  merge_requests :: "merge_request list option"
  merge_request_commits :: "jsval \<Rightarrow> raw_commit list option"
  branch_names :: "jsval list option"
  branch_commits :: "jsval \<Rightarrow> raw_commit list option"

text \<open>
  \<^verbatim>\<open>commit.title.match(/Merge branch '(.+?)'.*into (.+)/)\<close>, as the backtracking matcher runs
  it: the leftmost start wins; the first group takes as few characters as possible, at
  least one; \<^verbatim>\<open>.*\<close> takes as many as possible; the second group runs to the end of the
  line. The result is the pair of the two groups.

  A dot matches every character but a line terminator: line feed, carriage return,
  U+2028 and U+2029, the last two of three bytes each in UTF-8. The matcher here goes byte
  by byte and stops where the bytes of a line terminator begin. It finds the groups that
  the matcher of the language finds character by character: the literals of the pattern
  are ASCII, and the bytes of a line terminator occur nowhere else in an encoded string.
\<close>

definition at_line_terminator :: "string \<Rightarrow> bool" where
  "at_line_terminator s =
     (take 1 s = [CHR 0x0A] \<or> take 1 s = [CHR 0x0D]
      \<or> take 3 s = [CHR 0xE2, CHR 0x80, CHR 0xA8] \<or> take 3 s = [CHR 0xE2, CHR 0x80, CHR 0xA9])"

definition quote :: char where
  "quote = CHR 0x27"

text \<open>\<^verbatim>\<open>(.+)\<close> at the end of the pattern: all that is left of the line.\<close>

fun line_rest :: "string \<Rightarrow> string" where
  "line_rest [] = []"
| "line_rest (c # cs) = (if at_line_terminator (c # cs) then [] else c # line_rest cs)"

definition match_into :: "string \<Rightarrow> string option" where
  "match_into s =
     (if take 5 s = ''into '' then
        (let g = line_rest (drop 5 s)
         in if g = [] then None else Some g)
      else None)"

fun dot_star_into :: "string \<Rightarrow> string option" where
  "dot_star_into [] = match_into []"
| "dot_star_into (c # cs) =
     (if at_line_terminator (c # cs) then match_into (c # cs)
      else (case dot_star_into cs of Some g \<Rightarrow> Some g | None \<Rightarrow> match_into (c # cs)))"

fun name_then_rest :: "string \<Rightarrow> string \<Rightarrow> (string \<times> string) option" where
  "name_then_rest g1 [] = None"
| "name_then_rest g1 (c # cs) =
     (case (if c = quote then dot_star_into cs else None) of
        Some g2 \<Rightarrow> Some (g1, g2)
      | None \<Rightarrow> if at_line_terminator (c # cs) then None else name_then_rest (g1 @ [c]) cs)"

definition match_here :: "string \<Rightarrow> (string \<times> string) option" where
  "match_here s =
     (if take 14 s = ''Merge branch '' @ [quote] then
        (case drop 14 s of
           [] \<Rightarrow> None
         | c # cs \<Rightarrow> if at_line_terminator (c # cs) then None else name_then_rest [c] cs)
      else None)"

fun title_match :: "string \<Rightarrow> (string \<times> string) option" where
  "title_match [] = match_here []"
| "title_match (c # cs) =
     (case match_here (c # cs) of Some m \<Rightarrow> Some m | None \<Rightarrow> title_match cs)"

text \<open>A byte at which no line terminator begins.\<close>

definition plain :: "char \<Rightarrow> bool" where
  "plain c = (c \<noteq> CHR 0x0A \<and> c \<noteq> CHR 0x0D \<and> c \<noteq> CHR 0xE2)"

text \<open>The object pushed for a commit of a merge request.\<close>

definition mr_commit_activity :: "merge_request \<Rightarrow> raw_commit \<Rightarrow> activity" where
  "mr_commit_activity mr commit =
     \<lparr>iid = JUndefined, sha = c_id commit, source = JUndefined, target = JUndefined,
      title = c_title commit, date = c_created_at commit,
      type = JStr ''Commit'', project = JUndefined,
      branch = source mr, target_branch = target mr,
      from_merge_request = JBool True, mr_source = source mr, mr_target = target mr\<rparr>"

text \<open>
  The object pushed for a commit of a branch. \<^verbatim>\<open>commit.title.match\<close> throws a TypeError
  when the title is not a string.
\<close>

definition branch_commit_activity :: "jsval \<Rightarrow> raw_commit \<Rightarrow> exn + activity" where
  "branch_commit_activity branch_name commit =
     (case c_title commit of
        JStr t \<Rightarrow>
          (let mergeMatch = title_match t;
               displayBranch =
                 (case mergeMatch of None \<Rightarrow> branch_name
                  | Some (g1, g2) \<Rightarrow> if g2 = [] then branch_name else JStr g2);
               targetBranch =
                 (case mergeMatch of None \<Rightarrow> JNull
                  | Some (g1, g2) \<Rightarrow> if g2 = [] then branch_name else JStr g2)
           in Inr \<lparr>iid = JUndefined, sha = c_id commit, source = JUndefined, target = JUndefined,
                   title = c_title commit, date = c_created_at commit,
                   type = JStr ''Commit'', project = JUndefined,
                   branch = displayBranch, target_branch = targetBranch,
                   from_merge_request = JBool False, mr_source = JNull, mr_target = JNull\<rparr>)
      | _ \<Rightarrow> Inl TypeError)"

text \<open>
  The state of the collection is \<^verbatim>\<open>seenCommits\<close> and \<^verbatim>\<open>allCommits\<close>. Both are mutated in
  place, so what was pushed before an exception stays. The map that
  \<^verbatim>\<open>buildCommitToBranchMapping\<close> returns is never read and has no part in the result.

  The first loop has a \<^verbatim>\<open>try\<close> for each merge request: a failed request is logged and
  the loop goes on. The second loop is inside one \<^verbatim>\<open>try\<close>: the first exception, a failed
  request or a title that is no string, ends the walk over the branches.
\<close>

type_synonym collected = "jsval set \<times> activity list"

fun mr_commits_loop :: "jsval \<Rightarrow> merge_request \<Rightarrow> raw_commit list \<Rightarrow> collected \<Rightarrow> collected" where
  "mr_commits_loop userEmail mr [] st = st"
| "mr_commits_loop userEmail mr (commit # commits) (seenCommits, allCommits) =
     (if c_author_email commit = userEmail \<and> c_id commit \<notin> seenCommits then
        mr_commits_loop userEmail mr commits
          (insert (c_id commit) seenCommits, allCommits @ [mr_commit_activity mr commit])
      else mr_commits_loop userEmail mr commits (seenCommits, allCommits))"

fun mr_loop ::
  "remote_project \<Rightarrow> jsval \<Rightarrow> merge_request list \<Rightarrow> collected \<times> log list \<Rightarrow> collected \<times> log list"
where
  "mr_loop api userEmail [] st = st"
| "mr_loop api userEmail (mr # mergeRequests) (st, logs) =
     (case merge_request_commits api (iid mr) of
        None \<Rightarrow> mr_loop api userEmail mergeRequests (st, logs @ [Warn_mr_commits (iid mr)])
      | Some commits \<Rightarrow>
          mr_loop api userEmail mergeRequests (mr_commits_loop userEmail mr commits st, logs))"

fun branch_commits_loop ::
  "jsval \<Rightarrow> jsval \<Rightarrow> raw_commit list \<Rightarrow> collected \<Rightarrow> collected \<times> exn option" where
  "branch_commits_loop userEmail branch_name [] st = (st, None)"
| "branch_commits_loop userEmail branch_name (commit # commits) (seenCommits, allCommits) =
     (if c_author_email commit = userEmail \<and> c_id commit \<notin> seenCommits then
        (case branch_commit_activity branch_name commit of
           Inl e \<Rightarrow> ((insert (c_id commit) seenCommits, allCommits), Some e)
         | Inr a \<Rightarrow>
             branch_commits_loop userEmail branch_name commits
               (insert (c_id commit) seenCommits, allCommits @ [a]))
      else branch_commits_loop userEmail branch_name commits (seenCommits, allCommits))"

fun branch_loop ::
  "remote_project \<Rightarrow> jsval \<Rightarrow> jsval list \<Rightarrow> collected \<Rightarrow> collected \<times> exn option" where
  "branch_loop api userEmail [] st = (st, None)"
| "branch_loop api userEmail (branch_name # branches) st =
     (case branch_commits api branch_name of
        None \<Rightarrow> (st, Some RequestFailed)
      | Some commits \<Rightarrow>
          (case branch_commits_loop userEmail branch_name commits st of
             (st', Some e) \<Rightarrow> (st', Some e)
           | (st', None) \<Rightarrow> branch_loop api userEmail branches st'))"

definition getCommitsWithCorrectBranch ::
  "remote_project \<Rightarrow> jsval \<Rightarrow> merge_request list \<Rightarrow> activity list \<times> log list" where
  "getCommitsWithCorrectBranch api userEmail mergeRequests =
     (let (st1, logs1) = mr_loop api userEmail mergeRequests (({}, []), []);
          (st2, thrown) =
            (case branch_names api of
               None \<Rightarrow> (st1, Some RequestFailed)
             | Some branches \<Rightarrow> branch_loop api userEmail branches st1)
      in (snd st2, logs1 @ (case thrown of None \<Rightarrow> [] | Some e \<Rightarrow> [Warn_branches])))"

section \<open>The main loop\<close>

definition mr_activity :: "jsval \<Rightarrow> merge_request \<Rightarrow> activity" where
  "mr_activity project_name mr =
     \<lparr>iid = iid mr, sha = sha mr, source = source mr, target = target mr,
      title = title mr, date = date mr,
      type = JStr ''Merge Request'', project = project_name,
      branch = JUndefined, target_branch = JUndefined, from_merge_request = JUndefined,
      mr_source = JUndefined, mr_target = JUndefined\<rparr>"

text \<open>
  One turn of \<^verbatim>\<open>for (const project of projects)\<close>: what it pushes on \<^verbatim>\<open>allActivities\<close>,
  and what it logs. When the list of merge requests cannot be fetched, \<^verbatim>\<open>mergeRequests\<close>
  stays empty. \<^verbatim>\<open>getCommitsWithCorrectBranch\<close> catches its own exceptions, so the
  \<^verbatim>\<open>catch\<close> around its call is never entered.
\<close>

definition project_activities :: "jsval \<Rightarrow> remote_project \<Rightarrow> activity list \<times> log list" where
  "project_activities userEmail p =
     (let (mergeRequests, logs0) =
            (case merge_requests p of
               None \<Rightarrow> ([], [Warn_skipped_mrs (name_with_namespace p)])
             | Some ms \<Rightarrow> (ms, []));
          (commits, logs1) = getCommitsWithCorrectBranch p userEmail mergeRequests
      in (map (mr_activity (name_with_namespace p)) mergeRequests
            @ map (\<lambda>c. c\<lparr>project := name_with_namespace p\<rparr>) commits,
          logs0 @ logs1))"

fun collect_activities :: "jsval \<Rightarrow> remote_project list \<Rightarrow> activity list" where
  "collect_activities userEmail [] = []"
| "collect_activities userEmail (p # projects) =
     fst (project_activities userEmail p) @ collect_activities userEmail projects"

section \<open>The text report\<close>

text \<open>
  \<^verbatim>\<open>extractExistingIds\<close> reads the report back with two regular expressions. What they
  find in a content is the parameter \<open>scan\<close>; an absent file gives two empty sets.
\<close>

definition extractExistingIds ::
  "(string \<Rightarrow> string set \<times> string set) \<Rightarrow> string option \<Rightarrow> string set \<times> string set" where
  "extractExistingIds scan file = (case file of None \<Rightarrow> ({}, {}) | Some content \<Rightarrow> scan content)"

definition md_is_new :: "string set \<times> string set \<Rightarrow> activity \<Rightarrow> bool" where
  "md_is_new ids item =
     (if type item = JStr ''Commit'' then sha item \<notin> JStr ` fst ids
      else if type item = JStr ''Merge Request'' then mr_key item \<notin> snd ids
      else True)"

text \<open>
  \<^verbatim>\<open>groupedByDay\<close> is an object used as a dictionary; \<^verbatim>\<open>Object.entries\<close> lists its keys
  in the order they were first set (the day labels are no array indices), so it is an
  association list here. The label of a date, \<^verbatim>\<open>dayjs(item.date).format("dddd, D MMMM YYYY")\<close>
  in the locale \<^verbatim>\<open>id\<close>, is the parameter \<open>format_day\<close>.
\<close>

fun push_day :: "string \<Rightarrow> activity \<Rightarrow> (string \<times> activity list) list \<Rightarrow> (string \<times> activity list) list"
where
  "push_day dayKey item [] = [(dayKey, [item])]"
| "push_day dayKey item ((k, items) # rest) =
     (if k = dayKey then (k, items @ [item]) # rest else (k, items) # push_day dayKey item rest)"

definition groupByDay :: "(jsval \<Rightarrow> string) \<Rightarrow> activity list \<Rightarrow> (string \<times> activity list) list" where
  "groupByDay format_day items =
     foldl (\<lambda>groupedByDay item. push_day (format_day (date item)) item groupedByDay) [] items"

text \<open>\<^verbatim>\<open>([a], [b]) => new Date(b) - new Date(a)\<close> on two entries: the keys are the labels.\<close>

definition by_label_desc ::
  "(string \<Rightarrow> int option) \<Rightarrow> string \<times> activity list \<Rightarrow> string \<times> activity list \<Rightarrow> int option" where
  "by_label_desc parse a b =
     date_minus (new_Date parse (JStr (fst b))) (new_Date parse (JStr (fst a)))"

text \<open>
  A day section of the report: its heading and the entries of its two lists, in the
  order their lines are written. The text of a line and the joining of the new sections
  with the old report are not modelled.
\<close>

record day_section =
  day :: string
  commit_lines :: "activity list"
  mr_lines :: "activity list"

definition section_of :: "string \<times> activity list \<Rightarrow> day_section" where
  "section_of entry =
     \<lparr>day = fst entry,
      commit_lines = filter (\<lambda>a. type a = JStr ''Commit'') (snd entry),
      mr_lines = filter (\<lambda>a. type a = JStr ''Merge Request'') (snd entry)\<rparr>"

text \<open>
  \<^verbatim>\<open>saveGroupedToMarkdown\<close>: the sections it puts at the head of the report, in order, or
  \<open>None\<close> when it writes nothing.
\<close>

definition saveGroupedToMarkdown ::
  "(string \<Rightarrow> int option) \<Rightarrow> (jsval \<Rightarrow> string) \<Rightarrow> (string \<Rightarrow> string set \<times> string set) \<Rightarrow>
     activity list \<Rightarrow> string option \<Rightarrow> day_section list option" where
  "saveGroupedToMarkdown parse format_day scan items file =
     (let filtered = filter (md_is_new (extractExistingIds scan file)) items
      in if filtered = [] then None
         else Some (map section_of (js_sort (by_label_desc parse) (groupByDay format_day filtered))))"

text \<open>
  The script's top level: collect over all projects, then save in both formats. The
  result is what \<^verbatim>\<open>saveAsJson\<close> did and the sections of the report.
\<close>

definition main ::
  "(string \<Rightarrow> int option) \<Rightarrow> string \<Rightarrow> (jsval \<Rightarrow> string) \<Rightarrow> (string \<Rightarrow> string set \<times> string set) \<Rightarrow>
     jsval \<Rightarrow> remote_project list \<Rightarrow> json_file \<Rightarrow> string option \<Rightarrow>
     save_result \<times> day_section list option" where
  "main parse now format_day scan userEmail projects json md =
     (let allActivities = collect_activities userEmail projects
      in (saveAsJson parse now allActivities json,
          saveGroupedToMarkdown parse format_day scan allActivities md))"

section \<open>The notions of the specification\<close>

text \<open>
  The specification's \<^verbatim>\<open>reconcile(newBatch, priorIdentities, priorRecord)\<close> is
  \<open>saveAsJson\<close>: \<open>priorRecord\<close> is the \<^verbatim>\<open>data\<close> read from the file, \<open>delta\<close> is
  \<^verbatim>\<open>filteredData\<close>, \<open>fullRecord\<close> is the array returned.
\<close>

definition prior_record :: "json_file \<Rightarrow> activity list" where
  "prior_record file = data (fst (extractExistingFromJson file))"

definition delta :: "activity list \<Rightarrow> json_file \<Rightarrow> activity list" where
  "delta batch file = filter (is_new (fst (extractExistingFromJson file))) batch"

text \<open>
  No two commit entries with the same \<^verbatim>\<open>sha\<close>, no two merge request entries with the same
  \<^verbatim>\<open>source\<close> and \<^verbatim>\<open>target\<close>.
\<close>

definition no_duplicates :: "activity list \<Rightarrow> bool" where
  "no_duplicates xs =
     (distinct (map sha (filter (\<lambda>a. type a = JStr ''Commit'') xs)) \<and>
      distinct (map (\<lambda>a. (source a, target a)) (filter (\<lambda>a. type a = JStr ''Merge Request'') xs)))"

text \<open>
  Descending by date, on adjacent entries: \<^verbatim>\<open>new Date(x.date) >= new Date(y.date)\<close>, which
  is false as soon as one of the two dates is invalid.
\<close>

fun date_ge :: "int option \<Rightarrow> int option \<Rightarrow> bool" where
  "date_ge (Some x) (Some y) = (y \<le> x)"
| "date_ge _ _ = False"

fun descending_by_date :: "(string \<Rightarrow> int option) \<Rightarrow> activity list \<Rightarrow> bool" where
  "descending_by_date parse (x # y # ys) =
     (date_ge (new_Date parse (date x)) (new_Date parse (date y))
      \<and> descending_by_date parse (y # ys))"
| "descending_by_date parse _ = True"

text \<open>The entries of a list whose date is the instant \<open>t\<close>, in the order of the list.\<close>

definition dated :: "(string \<Rightarrow> int option) \<Rightarrow> int \<Rightarrow> activity list \<Rightarrow> activity list" where
  "dated parse t xs = filter (\<lambda>a. new_Date parse (date a) = Some t) xs"

text \<open>The key by which a sort by date, newest first, orders entries whose dates are valid.\<close>

definition neg_time :: "(string \<Rightarrow> int option) \<Rightarrow> activity \<Rightarrow> int" where
  "neg_time parse a = - the (new_Date parse (date a))"

text \<open>
  The state of the collection is consistent when \<^verbatim>\<open>seenCommits\<close> holds the identifiers of
  the entries pushed so far, each once. \<open>after_mrs\<close> is the state when the loop over the
  merge requests is over. An entry carries the attribution of a merge request when its
  branch fields are the request's.
\<close>

definition consistent :: "collected \<Rightarrow> bool" where
  "consistent st = (fst st = sha ` set (snd st) \<and> distinct (map sha (snd st)))"

definition after_mrs :: "remote_project \<Rightarrow> jsval \<Rightarrow> merge_request list \<Rightarrow> collected" where
  "after_mrs api email ms = fst (mr_loop api email ms (({}, []), []))"

definition attributed_to :: "merge_request \<Rightarrow> activity \<Rightarrow> bool" where
  "attributed_to mr a =
     (branch a = source mr \<and> target_branch a = target mr \<and> from_merge_request a = JBool True
      \<and> mr_source a = source mr \<and> mr_target a = target mr)"

text \<open>
  The identifiers that the loop over the merge requests can record: those of the user's
  commits in the lists that could be fetched. A commit is found only by the walk over the
  branches when its identifier is not among them. The walk runs to its end when no request
  of it fails and every title is a string.
\<close>

definition fetched_by_mrs :: "remote_project \<Rightarrow> jsval \<Rightarrow> merge_request list \<Rightarrow> jsval set" where
  "fetched_by_mrs api email ms =
     (\<Union>mr \<in> set ms. case merge_request_commits api (iid mr) of
                        None \<Rightarrow> {}
                      | Some cs \<Rightarrow> c_id ` {c \<in> set cs. c_author_email c = email})"

definition walk_completes :: "remote_project \<Rightarrow> jsval list \<Rightarrow> bool" where
  "walk_completes api bs =
     list_all (\<lambda>b. case branch_commits api b of
                      None \<Rightarrow> False
                    | Some cs \<Rightarrow> list_all (\<lambda>c. case c_title c of JStr s \<Rightarrow> True | _ \<Rightarrow> False) cs) bs"

section \<open>Example data\<close>

text \<open>
  A commit entry as the branch walk pushes it for a title that is no merge title, on
  branch \<^verbatim>\<open>main\<close> of project \<^verbatim>\<open>P\<close>, and a merge request entry of project \<^verbatim>\<open>P\<close>.
\<close>

definition example_commit :: "string \<Rightarrow> string \<Rightarrow> string \<Rightarrow> activity" where
  "example_commit s d t =
     \<lparr>iid = JUndefined, sha = JStr s, source = JUndefined, target = JUndefined,
      title = JStr t, date = JStr d,
      type = JStr ''Commit'', project = JStr ''P'',
      branch = JStr ''main'', target_branch = JNull,
      from_merge_request = JBool False, mr_source = JNull, mr_target = JNull\<rparr>"

definition example_mr :: "int \<Rightarrow> string \<Rightarrow> string \<Rightarrow> string \<Rightarrow> merge_request" where
  "example_mr n src tgt d =
     \<lparr>iid = JNum n, sha = JNull, source = JStr src, target = JStr tgt,
      title = JStr ''Work'', date = JStr d\<rparr>"

definition commit_a1 :: activity where
  "commit_a1 = example_commit ''a1'' ''2024-01-01T00:00:00Z'' ''init''"

definition commit_b2 :: activity where
  "commit_b2 = example_commit ''b2'' ''2024-01-02T00:00:00Z'' ''fix''"

text \<open>An entry that is neither a commit nor a merge request.\<close>

definition issue_item :: activity where
  "issue_item =
     (example_commit ''i1'' ''2024-01-03T00:00:00Z'' ''An issue'')\<lparr>type := JStr ''Issue''\<rparr>"

text \<open>Two merge requests of one project between the same two branches, and a third commit.\<close>

definition mr_feature_1 :: activity where
  "mr_feature_1 = mr_activity (JStr ''P'') (example_mr 1 ''feature'' ''main'' ''2024-01-01T00:00:00Z'')"

definition mr_feature_7 :: activity where
  "mr_feature_7 = mr_activity (JStr ''P'') (example_mr 7 ''feature'' ''main'' ''2024-03-01T00:00:00Z'')"

definition commit_c3 :: activity where
  "commit_c3 = example_commit ''c3'' ''2024-01-01T00:00:00Z'' ''docs''"

text \<open>
  A project as the API shows it to the user \<^verbatim>\<open>me@example.com\<close>: one merge request from
  \<^verbatim>\<open>feat\<close> to \<^verbatim>\<open>main\<close> with the commit \<^verbatim>\<open>x1\<close>; the branch \<^verbatim>\<open>feat\<close> with the same commit;
  the branch \<^verbatim>\<open>main\<close> with a merge commit \<^verbatim>\<open>m1\<close>. A fork of it has the same content under
  another name.
\<close>

definition me :: jsval where
  "me = JStr ''me@example.com''"

definition commit_x1 :: raw_commit where
  "commit_x1 = \<lparr>c_id = JStr ''x1'', c_title = JStr ''Add login form'',
                 c_created_at = JStr ''2024-06-10T09:00:00Z'', c_author_email = me\<rparr>"

definition commit_m1 :: raw_commit where
  "commit_m1 = \<lparr>c_id = JStr ''m1'', c_title = JStr ''Merge branch 'feat/login' into develop'',
                 c_created_at = JStr ''2024-06-11T09:00:00Z'', c_author_email = me\<rparr>"

definition mr_3 :: merge_request where
  "mr_3 = example_mr 3 ''feat'' ''main'' ''2024-06-10T22:00:00Z''"

definition example_project :: remote_project where
  "example_project =
     \<lparr>name_with_namespace = JStr ''group/app'',
      merge_requests = Some [mr_3],
      merge_request_commits = (\<lambda>i. if i = JNum 3 then Some [commit_x1] else None),
      branch_names = Some [JStr ''feat'', JStr ''main''],
      branch_commits =
        (\<lambda>b. if b = JStr ''feat'' then Some [commit_x1]
              else if b = JStr ''main'' then Some [commit_m1] else None)\<rparr>"

definition example_fork :: remote_project where
  "example_fork = example_project\<lparr>name_with_namespace := JStr ''me/app''\<rparr>"

text \<open>
  Two commits of May 2024 and the labels that \<^verbatim>\<open>dayjs\<close> gives their dates in the locale
  \<^verbatim>\<open>id\<close>; a table of two entries is enough for the example.
\<close>

definition commit_d14 :: activity where
  "commit_d14 = example_commit ''d14'' ''2024-05-14T09:00:00Z'' ''Tuesday work''"

definition commit_d15 :: activity where
  "commit_d15 = example_commit ''d15'' ''2024-05-15T09:00:00Z'' ''Wednesday work''"

definition format_day_may :: "jsval \<Rightarrow> string" where
  "format_day_may d =
     (if d = JStr ''2024-05-14T09:00:00Z'' then ''Selasa, 14 Mei 2024''
      else if d = JStr ''2024-05-15T09:00:00Z'' then ''Rabu, 15 Mei 2024''
      else ''Invalid Date'')"

text \<open>The number \<^verbatim>\<open>5\<close> as the value of \<^verbatim>\<open>activities\<close>: no length, not iterable.\<close>

definition five :: non_array where
  "five = \<lparr>positive_length = False, spread = None\<rparr>"

section \<open>Properties of the sort\<close>

lemma mset_js_insert: "mset (js_insert c x xs) = add_mset x (mset xs)"
  by (induction xs) auto

lemma mset_js_sort: "mset (js_sort c xs) = mset xs"
  by (induction xs) (auto simp: mset_js_insert)

lemma js_insert_by_key:
  assumes "k x \<noteq> None" and "\<forall>y \<in> set ys. k y \<noteq> None"
  shows "js_insert (\<lambda>a b. date_minus (k b) (k a)) x ys = insort_key (\<lambda>a. - the (k a)) x ys"
  using assms
  by (induction ys) (auto simp: SortCompare_def)

lemma js_sort_by_key:
  assumes "\<forall>a \<in> set xs. k a \<noteq> None"
  shows "js_sort (\<lambda>a b. date_minus (k b) (k a)) xs = sort_key (\<lambda>a. - the (k a)) xs"
  using assms
proof (induction xs)
  case Nil
  then show ?case by simp
next
  case (Cons x xs)
  then have "js_sort (\<lambda>a b. date_minus (k b) (k a)) xs = sort_key (\<lambda>a. - the (k a)) xs" by simp
  moreover have "\<forall>y \<in> set (sort_key (\<lambda>a. - the (k a)) xs). k y \<noteq> None"
    using Cons.prems by simp
  ultimately show ?case
    using Cons.prems by (simp add: js_insert_by_key)
qed

lemma js_sort_sort_key:
  assumes "\<forall>a \<in> set xs. new_Date parse (date a) \<noteq> None"
  shows "js_sort (by_date_desc parse) xs = sort_key (neg_time parse) xs"
proof -
  have c: "by_date_desc parse
             = (\<lambda>a b. date_minus (new_Date parse (date b)) (new_Date parse (date a)))"
    by (intro ext) (simp add: by_date_desc_def)
  have k: "neg_time parse = (\<lambda>a. - the (new_Date parse (date a)))"
    by (intro ext) (simp add: neg_time_def)
  show ?thesis
    unfolding c k using assms by (rule js_sort_by_key)
qed

lemma js_sort_all_NaN:
  assumes "\<forall>x \<in> set xs. \<forall>y \<in> set xs. c x y = None"
  shows "js_sort c xs = xs"
  using assms
proof (induction xs)
  case Nil
  then show ?case by simp
next
  case (Cons x xs)
  then have "js_sort c xs = xs" by simp
  moreover have "js_insert c x xs = x # xs"
    using Cons.prems by (cases xs) (simp_all add: SortCompare_def)
  ultimately show ?case by simp
qed

lemma sorted_neg_time_descending:
  assumes "\<forall>a \<in> set xs. new_Date parse (date a) \<noteq> None" and "sorted (map (neg_time parse) xs)"
  shows "descending_by_date parse xs"
  using assms
  by (induction parse xs rule: descending_by_date.induct) (auto simp: neg_time_def)

lemma dated_neg_time:
  assumes "\<forall>a \<in> set xs. new_Date parse (date a) \<noteq> None"
  shows "dated parse t xs = filter (\<lambda>a. neg_time parse a = - t) xs"
  unfolding dated_def using assms
  by (intro filter_cong) (auto simp: neg_time_def)

lemma js_sort_descending:
  assumes "\<forall>a \<in> set xs. new_Date parse (date a) \<noteq> None"
  shows "descending_by_date parse (js_sort (by_date_desc parse) xs)"
proof -
  have "sorted (map (neg_time parse) (sort_key (neg_time parse) xs))"
    by (rule sorted_sort_key)
  moreover have "\<forall>a \<in> set (sort_key (neg_time parse) xs). new_Date parse (date a) \<noteq> None"
    using assms by simp
  ultimately show ?thesis
    unfolding js_sort_sort_key [OF assms] by (rule sorted_neg_time_descending [rotated])
qed

lemma js_sort_stable:
  assumes "\<forall>a \<in> set xs. new_Date parse (date a) \<noteq> None"
  shows "dated parse t (js_sort (by_date_desc parse) xs) = dated parse t xs"
proof -
  have v: "\<forall>a \<in> set (sort_key (neg_time parse) xs). new_Date parse (date a) \<noteq> None"
    using assms by simp
  show ?thesis
    unfolding js_sort_sort_key [OF assms] dated_neg_time [OF v] dated_neg_time [OF assms]
    by (rule sort_key_stable)
qed

section \<open>Properties of the structured record\<close>

lemma foldl_add_identity_data: "data (foldl add_identity ex xs) = data ex"
  by (induction xs arbitrary: ex) (auto simp: add_identity_def)

lemma foldl_add_identity_shas:
  "shas (foldl add_identity ex xs) = shas ex \<union> sha ` {a \<in> set xs. type a = JStr ''Commit''}"
  by (induction xs arbitrary: ex) (auto simp: add_identity_def)

lemma foldl_add_identity_mrs:
  "mrs (foldl add_identity ex xs) =
     mrs ex \<union> mr_key ` {a \<in> set xs. type a \<noteq> JStr ''Commit'' \<and> type a = JStr ''Merge Request''}"
  by (induction xs arbitrary: ex) (auto simp: add_identity_def)

lemma extract_shas:
  "shas (fst (extractExistingFromJson file)) =
     sha ` {a \<in> set (prior_record file). type a = JStr ''Commit''}"
  by (auto simp: prior_record_def extractExistingFromJson_def existing_empty_def
      foldl_add_identity_shas foldl_add_identity_data split: option.splits sum.splits)

lemma extract_mrs:
  "mrs (fst (extractExistingFromJson file)) =
     mr_key ` {a \<in> set (prior_record file). type a = JStr ''Merge Request''}"
  by (auto simp: prior_record_def extractExistingFromJson_def existing_empty_def
      foldl_add_identity_mrs foldl_add_identity_data split: option.splits sum.splits)

lemma prior_record_Document [simp]: "prior_record (Some (Document (Some xs))) = xs"
  by (simp add: prior_record_def extractExistingFromJson_def JSON_parse_def existing_empty_def
      foldl_add_identity_data)

lemma prior_record_nonempty:
  "prior_record file \<noteq> [] \<Longrightarrow> file = Some (Document (Some (prior_record file)))"
  by (auto simp: prior_record_def extractExistingFromJson_def JSON_parse_def existing_empty_def
      foldl_add_identity_data split: option.splits sum.splits json_content.splits)

lemma delta_general:
  "delta batch file =
     filter (\<lambda>item. if type item = JStr ''Commit''
                     then sha item \<notin> sha ` {a \<in> set (prior_record file). type a = JStr ''Commit''}
                     else if type item = JStr ''Merge Request''
                     then mr_key item
                            \<notin> mr_key ` {a \<in> set (prior_record file). type a = JStr ''Merge Request''}
                     else True) batch"
  unfolding delta_def is_new_def extract_shas extract_mrs by simp

lemma saveAsJson_filteredData: "filteredData (saveAsJson parse now batch file) = delta batch file"
  by (auto simp: saveAsJson_def delta_def Let_def split: prod.splits)

lemma saveAsJson_returned:
  "returned (saveAsJson parse now batch file) =
     (if delta batch file = [] \<and> prior_record file \<noteq> [] then prior_record file
      else js_sort (by_date_desc parse) (prior_record file @ delta batch file))"
  by (auto simp: saveAsJson_def delta_def prior_record_def Let_def split: prod.splits)

lemma saveAsJson_written:
  "written (saveAsJson parse now batch file) =
     (if delta batch file = [] \<and> prior_record file \<noteq> [] then None
      else Some \<lparr>generated_at = now,
             total_activities = length (returned (saveAsJson parse now batch file)),
             summary_commits =
               length (filter (\<lambda>item. type item = JStr ''Commit'')
                 (returned (saveAsJson parse now batch file))),
             summary_merge_requests =
               length (filter (\<lambda>item. type item = JStr ''Merge Request'')
                 (returned (saveAsJson parse now batch file))),
             activities = returned (saveAsJson parse now batch file)\<rparr>)"
  by (auto simp: saveAsJson_def delta_def prior_record_def Let_def split: prod.splits)

lemma file_after_eq:
  "file_after file (saveAsJson parse now batch file) =
     Some (Document (Some (returned (saveAsJson parse now batch file))))"
  by (auto simp: file_after_def saveAsJson_written saveAsJson_returned dest: prior_record_nonempty)

lemma mset_returned:
  "mset (returned (saveAsJson parse now batch file)) =
     mset (prior_record file) + mset (delta batch file)"
  by (simp add: saveAsJson_returned mset_js_sort)

lemma set_returned:
  "set (returned (saveAsJson parse now batch file)) =
     set (prior_record file) \<union> set (delta batch file)"
proof -
  have "set_mset (mset (returned (saveAsJson parse now batch file)))
          = set_mset (mset (prior_record file) + mset (delta batch file))"
    by (simp only: mset_returned)
  then show ?thesis by simp
qed

lemma is_new_other:
  "type item \<noteq> JStr ''Commit'' \<Longrightarrow> type item \<noteq> JStr ''Merge Request'' \<Longrightarrow> is_new ex item"
  by (simp add: is_new_def)

lemmas example_defs = commit_a1_def commit_b2_def commit_c3_def example_commit_def example_mr_def
  issue_item_def mr_feature_1_def mr_feature_7_def mr_activity_def

lemmas eval_dates = Date_parse_utc_def is_digit_def days_from_civil_def days_in_month_def
  is_leap_def by_date_desc_def SortCompare_def

lemmas eval_json = saveAsJson_def extractExistingFromJson_def JSON_parse_def existing_empty_def
  add_identity_def is_new_def mr_key_def arrow_def Let_def

text \<open>
  Claim C6. When no item of the batch is new (the delta is empty) and the prior record is
  not empty, \<open>saveAsJson\<close> returns the prior record as it is and writes nothing: the
  file stays as it was.
\<close>

theorem C6_empty_delta_returns_prior:
  assumes "filteredData (saveAsJson parse now batch file) = []"
    and "prior_record file \<noteq> []"
  shows "returned (saveAsJson parse now batch file) = prior_record file
       \<and> written (saveAsJson parse now batch file) = None
       \<and> file_after file (saveAsJson parse now batch file) = file"
  using assms
  by (simp add: saveAsJson_filteredData saveAsJson_returned saveAsJson_written file_after_def)

text \<open>The prior record holds the commit \<^verbatim>\<open>a1\<close> and the batch brings \<^verbatim>\<open>a1\<close> again.\<close>

theorem C6_empty_delta_witness:
  "filteredData (saveAsJson Date_parse_utc ''now'' [commit_a1] (Some (Document (Some [commit_a1])))) = []
   \<and> prior_record (Some (Document (Some [commit_a1]))) \<noteq> []
   \<and> returned (saveAsJson Date_parse_utc ''now'' [commit_a1] (Some (Document (Some [commit_a1]))))
       = [commit_a1]
   \<and> written (saveAsJson Date_parse_utc ''now'' [commit_a1] (Some (Document (Some [commit_a1]))))
       = None"
proof -
  let ?file = "Some (Document (Some [commit_a1]))"
  have h1: "filteredData (saveAsJson Date_parse_utc ''now'' [commit_a1] ?file) = []"
    by (simp add: eval_json example_defs)
  have h2: "prior_record ?file \<noteq> []"
    by simp
  show ?thesis
    using C6_empty_delta_returns_prior [OF h1 h2] h1 h2 by simp
qed

text \<open>
  Claim C10. An item of the batch whose \<^verbatim>\<open>type\<close> is neither \<^verbatim>\<open>"Commit"\<close> nor
  \<^verbatim>\<open>"Merge Request"\<close> is always in the delta, whatever the prior state, and the run
  writes the file with the item added: it occurs in the written \<^verbatim>\<open>activities\<close> as often
  as in the prior record and in the batch together.
\<close>

theorem C10_other_types_always_kept:
  assumes "item \<in> set batch"
    and "type item \<noteq> JStr ''Commit''" and "type item \<noteq> JStr ''Merge Request''"
  shows "item \<in> set (filteredData (saveAsJson parse now batch file))
       \<and> (\<exists>out. written (saveAsJson parse now batch file) = Some out
             \<and> count_list (activities out) item
                 = count_list (prior_record file) item + count_list batch item)"
proof -
  let ?r = "saveAsJson parse now batch file"
  have new: "is_new (fst (extractExistingFromJson file)) item"
    using assms(2,3) by (rule is_new_other)
  have in_delta: "item \<in> set (delta batch file)"
    using assms(1) new by (simp add: delta_def)
  then have ne: "delta batch file \<noteq> []" by auto
  have cnt: "count_list (delta batch file) item = count_list batch item"
    using new unfolding delta_def by (induction batch) auto
  have "count (mset (returned ?r)) item
          = count (mset (prior_record file)) item + count (mset (delta batch file)) item"
    by (simp add: mset_returned)
  then have "count_list (returned ?r) item
               = count_list (prior_record file) item + count_list batch item"
    by (simp add: count_mset cnt)
  then show ?thesis
    using in_delta ne by (simp add: saveAsJson_filteredData saveAsJson_written)
qed

text \<open>
  The record already holds an entry of type \<^verbatim>\<open>"Issue"\<close> and the batch brings the same
  entry: the file is written with two of them.
\<close>

theorem C10_other_types_witness:
  "issue_item \<in> set [issue_item] \<and> type issue_item \<noteq> JStr ''Commit''
   \<and> type issue_item \<noteq> JStr ''Merge Request''
   \<and> issue_item \<in> set (filteredData
         (saveAsJson Date_parse_utc ''now'' [issue_item] (Some (Document (Some [issue_item])))))
   \<and> (\<exists>out. written (saveAsJson Date_parse_utc ''now'' [issue_item]
                 (Some (Document (Some [issue_item])))) = Some out
          \<and> count_list (activities out) issue_item = 2)"
proof -
  have h1: "issue_item \<in> set [issue_item]" by simp
  have h2: "type issue_item \<noteq> JStr ''Commit''" by (simp add: example_defs)
  have h3: "type issue_item \<noteq> JStr ''Merge Request''" by (simp add: example_defs)
  show ?thesis
    using C10_other_types_always_kept
      [OF h1 h2 h3, of Date_parse_utc "''now''" "Some (Document (Some [issue_item]))"] h2 h3
    by (simp add: numeral_2_eq_2)
qed

text \<open>
  An absent file, and a file whose content \<^verbatim>\<open>JSON.parse\<close> rejects, give empty identity sets
  and empty data, the second with a warning; \<open>saveAsJson\<close> then returns what it returns
  for an absent file, and writes the file.
\<close>

lemma absent_or_rejected_is_empty:
  "extractExistingFromJson None = (\<lparr>shas = {}, mrs = {}, data = []\<rparr>, [])
   \<and> extractExistingFromJson (Some (Unparseable msg))
       = (\<lparr>shas = {}, mrs = {}, data = []\<rparr>, [Warn_could_not_parse msg])
   \<and> returned (saveAsJson parse now batch (Some (Unparseable msg)))
       = returned (saveAsJson parse now batch None)
   \<and> written (saveAsJson parse now batch (Some (Unparseable msg))) \<noteq> None"
  by (simp add: extractExistingFromJson_def JSON_parse_def existing_empty_def saveAsJson_def Let_def)

lemma delta_Document:
  "delta batch (Some (Document (Some xs))) =
     filter (\<lambda>item. if type item = JStr ''Commit''
                     then sha item \<notin> sha ` {a \<in> set xs. type a = JStr ''Commit''}
                     else if type item = JStr ''Merge Request''
                     then mr_key item \<notin> mr_key ` {a \<in> set xs. type a = JStr ''Merge Request''}
                     else True) batch"
  unfolding delta_def is_new_def extract_shas extract_mrs by simp

text \<open>
  Claim C4. For a batch of commit and merge request entries, a second run with the same
  batch, on the file as the first run left it, finds nothing new and returns the array the
  first run returned. The file the first run leaves holds that array as its
  \<^verbatim>\<open>activities\<close>, whether the first run wrote it or not.
\<close>

theorem C4_second_run_is_idle:
  assumes typed: "\<forall>item \<in> set batch. type item = JStr ''Commit'' \<or> type item = JStr ''Merge Request''"
  shows "file_after file (saveAsJson parse now batch file)
           = Some (Document (Some (returned (saveAsJson parse now batch file))))
       \<and> filteredData (saveAsJson parse now' batch (file_after file (saveAsJson parse now batch file))) = []
       \<and> returned (saveAsJson parse now' batch (file_after file (saveAsJson parse now batch file)))
           = returned (saveAsJson parse now batch file)"
proof -
  let ?r1 = "saveAsJson parse now batch file"
  let ?full = "returned ?r1"
  let ?file1 = "Some (Document (Some ?full))"
  have f1: "file_after file ?r1 = ?file1" by (rule file_after_eq)
  have sets: "set ?full = set (prior_record file) \<union> set (delta batch file)"
    by (rule set_returned)
  have "\<not> (if type item = JStr ''Commit''
                     then sha item \<notin> sha ` {a \<in> set ?full. type a = JStr ''Commit''}
                     else if type item = JStr ''Merge Request''
                     then mr_key item \<notin> mr_key ` {a \<in> set ?full. type a = JStr ''Merge Request''}
                     else True)" if "item \<in> set batch" for item
  proof (cases "item \<in> set (delta batch file)")
    case True
    then have "item \<in> set ?full" using sets by simp
    then show ?thesis using typed that by auto
  next
    case False
    then have "\<not> (if type item = JStr ''Commit''
                     then sha item \<notin> sha ` {a \<in> set (prior_record file). type a = JStr ''Commit''}
                     else if type item = JStr ''Merge Request''
                     then mr_key item \<notin> mr_key ` {a \<in> set (prior_record file). type a = JStr ''Merge Request''}
                     else True)"
      using that by (simp add: delta_general)
    then show ?thesis using sets by (auto split: if_splits)
  qed
  then have d2: "delta batch ?file1 = []"
    unfolding delta_Document by (simp add: filter_empty_conv)
  have "returned (saveAsJson parse now' batch ?file1)
          = (if ?full \<noteq> [] then ?full else js_sort (by_date_desc parse) (?full @ delta batch ?file1))"
    unfolding saveAsJson_returned [of parse now' batch ?file1] prior_record_Document d2 by simp
  then have r2: "returned (saveAsJson parse now' batch ?file1) = ?full"
    unfolding d2 by (cases "?full = []") simp_all
  show ?thesis
    using f1 d2 r2 by (simp add: saveAsJson_filteredData)
qed



text \<open>
  The scenario of the specification: the record holds \<^verbatim>\<open>a1\<close>, the batch is \<^verbatim>\<open>a1\<close> and
  \<^verbatim>\<open>b2\<close>. The first run returns \<^verbatim>\<open>b2\<close>, \<^verbatim>\<open>a1\<close>; so does the second.
\<close>

theorem C4_second_run_witness:
  "type commit_a1 = JStr ''Commit'' \<and> type commit_b2 = JStr ''Commit''
   \<and> returned (saveAsJson Date_parse_utc ''t1'' [commit_a1, commit_b2]
         (Some (Document (Some [commit_a1])))) = [commit_b2, commit_a1]
   \<and> filteredData (saveAsJson Date_parse_utc ''t2'' [commit_a1, commit_b2]
         (file_after (Some (Document (Some [commit_a1])))
            (saveAsJson Date_parse_utc ''t1'' [commit_a1, commit_b2]
               (Some (Document (Some [commit_a1])))))) = []
   \<and> returned (saveAsJson Date_parse_utc ''t2'' [commit_a1, commit_b2]
         (file_after (Some (Document (Some [commit_a1])))
            (saveAsJson Date_parse_utc ''t1'' [commit_a1, commit_b2]
               (Some (Document (Some [commit_a1])))))) = [commit_b2, commit_a1]"
proof -
  have h: "\<forall>item \<in> set [commit_a1, commit_b2].
      type item = JStr ''Commit'' \<or> type item = JStr ''Merge Request''"
    by (simp add: example_defs)
  have r: "returned (saveAsJson Date_parse_utc ''t1'' [commit_a1, commit_b2]
         (Some (Document (Some [commit_a1])))) = [commit_b2, commit_a1]"
    by (simp add: eval_json eval_dates example_defs)
  note c4 = C4_second_run_is_idle [OF h, of "Some (Document (Some [commit_a1]))" Date_parse_utc
      "''t1''" "''t2''"]
  from c4 have c4a: "filteredData (saveAsJson Date_parse_utc ''t2'' [commit_a1, commit_b2]
         (file_after (Some (Document (Some [commit_a1])))
            (saveAsJson Date_parse_utc ''t1'' [commit_a1, commit_b2]
               (Some (Document (Some [commit_a1])))))) = []"
    by blast
  from c4 have c4b: "returned (saveAsJson Date_parse_utc ''t2'' [commit_a1, commit_b2]
         (file_after (Some (Document (Some [commit_a1])))
            (saveAsJson Date_parse_utc ''t1'' [commit_a1, commit_b2]
               (Some (Document (Some [commit_a1]))))))
      = returned (saveAsJson Date_parse_utc ''t1'' [commit_a1, commit_b2]
         (Some (Document (Some [commit_a1]))))"
    by blast
  have ty: "type commit_a1 = JStr ''Commit''" "type commit_b2 = JStr ''Commit''"
    by (simp_all add: example_defs)
  show ?thesis
    using ty r c4a c4b [unfolded r] by blast
qed

lemma no_duplicates_mset:
  assumes "mset xs = mset ys"
  shows "no_duplicates xs = no_duplicates ys"
proof -
  have eq: "mset (map f (filter P xs)) = mset (map f (filter P ys))"
    for f :: "activity \<Rightarrow> 'b" and P
    using assms by simp
  have 1: "distinct (map sha (filter (\<lambda>a. type a = JStr ''Commit'') xs))
         = distinct (map sha (filter (\<lambda>a. type a = JStr ''Commit'') ys))"
    using eq by (rule mset_eq_imp_distinct_iff)
  have 2: "distinct (map (\<lambda>a. (source a, target a)) (filter (\<lambda>a. type a = JStr ''Merge Request'') xs))
         = distinct (map (\<lambda>a. (source a, target a)) (filter (\<lambda>a. type a = JStr ''Merge Request'') ys))"
    using eq by (rule mset_eq_imp_distinct_iff)
  show ?thesis
    unfolding no_duplicates_def 1 2 ..
qed

lemma no_duplicates_append:
  assumes "no_duplicates xs" and "no_duplicates ys"
    and "sha ` {a \<in> set xs. type a = JStr ''Commit''} \<inter> sha ` {a \<in> set ys. type a = JStr ''Commit''} = {}"
    and "(\<lambda>a. (source a, target a)) ` {a \<in> set xs. type a = JStr ''Merge Request''}
         \<inter> (\<lambda>a. (source a, target a)) ` {a \<in> set ys. type a = JStr ''Merge Request''} = {}"
  shows "no_duplicates (xs @ ys)"
proof -
  have s: "set (map f (filter P zs)) = f ` {a \<in> set zs. P a}" for f :: "activity \<Rightarrow> 'b" and P zs
    by simp
  show ?thesis
    using assms unfolding no_duplicates_def filter_append map_append distinct_append s
    by simp
qed

lemma no_duplicates_filter:
  assumes nd: "no_duplicates xs"
  shows "no_duplicates (filter P xs)"
proof -
  have comm: "filter Q (filter P xs) = filter P (filter Q xs)" for Q
    by (induction xs) auto
  from nd have d1: "distinct (map sha (filter (\<lambda>a. type a = JStr ''Commit'') xs))"
    and d2: "distinct (map (\<lambda>a. (source a, target a)) (filter (\<lambda>a. type a = JStr ''Merge Request'') xs))"
    unfolding no_duplicates_def by simp_all
  have "distinct (map sha (filter P (filter (\<lambda>a. type a = JStr ''Commit'') xs)))"
    using d1 by (rule distinct_map_filter)
  moreover have "distinct (map (\<lambda>a. (source a, target a))
                   (filter P (filter (\<lambda>a. type a = JStr ''Merge Request'') xs)))"
    using d2 by (rule distinct_map_filter)
  ultimately show ?thesis
    unfolding no_duplicates_def
      comm [of "\<lambda>a. type a = JStr ''Commit''"] comm [of "\<lambda>a. type a = JStr ''Merge Request''"]
    by (rule conjI)
qed

lemma mr_key_pair: "source a = source b \<Longrightarrow> target a = target b \<Longrightarrow> mr_key a = mr_key b"
  by (simp add: mr_key_def)

text \<open>
  Claim C1, as it is stated, fails: the filter compares the batch with the prior record
  only. Two merge requests of one batch between the same two branches are both kept, and a
  prior record that holds an entry twice is returned as it is.
\<close>

theorem C1_duplicates_counterexample:
  "\<not> no_duplicates (returned (saveAsJson Date_parse_utc ''now'' [mr_feature_1, mr_feature_7] None))
   \<and> \<not> no_duplicates (returned (saveAsJson Date_parse_utc ''now'' []
           (Some (Document (Some [commit_a1, commit_a1])))))"
  by (simp add: eval_json eval_dates example_defs no_duplicates_def)

text \<open>
  Claim C1, amended. When neither the prior record nor the batch holds two commit entries
  with the same \<^verbatim>\<open>sha\<close> or two merge request entries with the same \<^verbatim>\<open>source\<close> and
  \<^verbatim>\<open>target\<close>, the array that \<open>saveAsJson\<close> returns holds none either, and neither do the
  \<^verbatim>\<open>activities\<close> it writes.
\<close>

theorem C1_no_duplicates_preserved:
  assumes "no_duplicates (prior_record file)" and "no_duplicates batch"
  shows "no_duplicates (returned (saveAsJson parse now batch file))
       \<and> (\<forall>out. written (saveAsJson parse now batch file) = Some out
              \<longrightarrow> no_duplicates (activities out))"
proof -
  have d: "no_duplicates (delta batch file)"
    unfolding delta_def using assms(2) by (rule no_duplicates_filter)
  have c: "sha ` {a \<in> set (prior_record file). type a = JStr ''Commit''}
             \<inter> sha ` {a \<in> set (delta batch file). type a = JStr ''Commit''} = {}"
  proof -
    have False if "a \<in> set (prior_record file)" "type a = JStr ''Commit''"
      "b \<in> set (delta batch file)" "type b = JStr ''Commit''" "sha a = sha b" for a b
    proof -
      have "sha b \<notin> sha ` {a \<in> set (prior_record file). type a = JStr ''Commit''}"
        using that(3,4) by (simp add: delta_general)
      moreover have "sha b \<in> sha ` {a \<in> set (prior_record file). type a = JStr ''Commit''}"
        unfolding that(5) [symmetric] using that(1,2) by simp
      ultimately show False by simp
    qed
    then show ?thesis by auto
  qed
  have m: "(\<lambda>a. (source a, target a)) ` {a \<in> set (prior_record file). type a = JStr ''Merge Request''}
         \<inter> (\<lambda>a. (source a, target a)) ` {a \<in> set (delta batch file). type a = JStr ''Merge Request''} = {}"
  proof -
    have False if "a \<in> set (prior_record file)" "type a = JStr ''Merge Request''"
      "b \<in> set (delta batch file)" "type b = JStr ''Merge Request''"
      "source a = source b" "target a = target b" for a b
    proof -
      have "mr_key b \<notin> mr_key ` {a \<in> set (prior_record file). type a = JStr ''Merge Request''}"
        using that(3,4) by (simp add: delta_general)
      moreover have "mr_key b = mr_key a"
        using that(5,6) by (simp add: mr_key_def)
      moreover have "mr_key a \<in> mr_key ` {a \<in> set (prior_record file). type a = JStr ''Merge Request''}"
        using that(1,2) by simp
      ultimately show False by simp
    qed
    then show ?thesis by auto
  qed
  have "no_duplicates (prior_record file @ delta batch file)"
    using assms(1) d c m by (rule no_duplicates_append)
  moreover have "mset (returned (saveAsJson parse now batch file)) = mset (prior_record file @ delta batch file)"
    by (simp add: mset_returned)
  ultimately have "no_duplicates (returned (saveAsJson parse now batch file))"
    by (simp only: no_duplicates_mset
        [of "returned (saveAsJson parse now batch file)" "prior_record file @ delta batch file"])
  then show ?thesis
    by (auto simp: saveAsJson_written split: if_splits)
qed


text \<open>The record holds \<^verbatim>\<open>a1\<close>, the batch is \<^verbatim>\<open>a1\<close> and \<^verbatim>\<open>b2\<close>.\<close>

theorem C1_no_duplicates_witness:
  "no_duplicates (prior_record (Some (Document (Some [commit_a1]))))
   \<and> no_duplicates [commit_a1, commit_b2]
   \<and> no_duplicates (returned (saveAsJson Date_parse_utc ''now'' [commit_a1, commit_b2]
         (Some (Document (Some [commit_a1])))))"
proof -
  have h1: "no_duplicates (prior_record (Some (Document (Some [commit_a1]))))"
    by (simp add: no_duplicates_def)
  have h2: "no_duplicates [commit_a1, commit_b2]"
    by (simp add: no_duplicates_def example_defs)
  show ?thesis
    using C1_no_duplicates_preserved [OF h1 h2, of Date_parse_utc "''now''"] h1 h2 by blast
qed

text \<open>
  Claim C5, as it is stated, fails: when nothing is new the prior record is returned as
  the file has it, without a sort. Here the file lists \<^verbatim>\<open>a1\<close> (1 January) before \<^verbatim>\<open>b2\<close>
  (2 January) and the batch brings \<^verbatim>\<open>a1\<close> again.
\<close>

theorem C5_unsorted_prior_counterexample:
  "\<not> descending_by_date Date_parse_utc
       (returned (saveAsJson Date_parse_utc ''now'' [commit_a1]
          (Some (Document (Some [commit_a1, commit_b2])))))"
  by (simp add: eval_json eval_dates example_defs)

text \<open>
  Claim C5, amended. Let every date of the prior record and of the batch be valid. When
  some item is new, or the prior record is empty, the returned array is in descending
  order of date on adjacent entries. When nothing is new and the prior record is not
  empty, the returned array is the prior record as the file has it, in descending order
  exactly when the file was. In every case the entries of one date stand in it as in the
  prior record followed by the new items: the sort is stable, prior entries before new
  ones.
\<close>

theorem C5_sorted_and_stable:
  assumes valid: "\<forall>a \<in> set (prior_record file) \<union> set batch. new_Date parse (date a) \<noteq> None"
  shows "(filteredData (saveAsJson parse now batch file) \<noteq> [] \<or> prior_record file = []
            \<longrightarrow> descending_by_date parse (returned (saveAsJson parse now batch file)))
       \<and> (filteredData (saveAsJson parse now batch file) = [] \<and> prior_record file \<noteq> []
            \<longrightarrow> returned (saveAsJson parse now batch file) = prior_record file)
       \<and> dated parse t (returned (saveAsJson parse now batch file))
           = dated parse t (prior_record file)
               @ dated parse t (filteredData (saveAsJson parse now batch file))"
proof (cases "delta batch file = [] \<and> prior_record file \<noteq> []")
  case True
  then show ?thesis
    by (simp add: saveAsJson_returned saveAsJson_filteredData dated_def)
next
  case False
  have "set (delta batch file) \<subseteq> set batch"
    by (auto simp: delta_def)
  then have v: "\<forall>a \<in> set (prior_record file @ delta batch file). new_Date parse (date a) \<noteq> None"
    using valid by auto
  have r: "returned (saveAsJson parse now batch file)
             = js_sort (by_date_desc parse) (prior_record file @ delta batch file)"
    using False by (simp add: saveAsJson_returned)
  have "dated parse t (prior_record file @ delta batch file)
          = dated parse t (prior_record file) @ dated parse t (delta batch file)"
    by (simp add: dated_def)
  then show ?thesis
    unfolding r saveAsJson_filteredData
    using False js_sort_descending [OF v] js_sort_stable [OF v, of t] by simp
qed

text \<open>
  First the record holds \<^verbatim>\<open>a1\<close> and the batch brings \<^verbatim>\<open>c3\<close>, of the same date as \<^verbatim>\<open>a1\<close>,
  and the later \<^verbatim>\<open>b2\<close>: the result is sorted, \<^verbatim>\<open>a1\<close> before \<^verbatim>\<open>c3\<close>. Then the file lists
  \<^verbatim>\<open>a1\<close> before the later \<^verbatim>\<open>b2\<close> and the batch brings \<^verbatim>\<open>a1\<close> again: the result is the
  file's list.
\<close>

theorem C5_sorted_and_stable_witness:
  "new_Date Date_parse_utc (date commit_a1) \<noteq> None
   \<and> new_Date Date_parse_utc (date commit_c3) \<noteq> None
   \<and> new_Date Date_parse_utc (date commit_b2) \<noteq> None
   \<and> filteredData (saveAsJson Date_parse_utc ''now'' [commit_c3, commit_b2]
         (Some (Document (Some [commit_a1])))) \<noteq> []
   \<and> returned (saveAsJson Date_parse_utc ''now'' [commit_c3, commit_b2]
         (Some (Document (Some [commit_a1])))) = [commit_b2, commit_a1, commit_c3]
   \<and> descending_by_date Date_parse_utc
         (returned (saveAsJson Date_parse_utc ''now'' [commit_c3, commit_b2]
            (Some (Document (Some [commit_a1])))))
   \<and> dated Date_parse_utc 1704067200000
         (returned (saveAsJson Date_parse_utc ''now'' [commit_c3, commit_b2]
            (Some (Document (Some [commit_a1]))))) = [commit_a1, commit_c3]
   \<and> filteredData (saveAsJson Date_parse_utc ''now'' [commit_a1]
         (Some (Document (Some [commit_a1, commit_b2])))) = []
   \<and> returned (saveAsJson Date_parse_utc ''now'' [commit_a1]
         (Some (Document (Some [commit_a1, commit_b2])))) = [commit_a1, commit_b2]
   \<and> dated Date_parse_utc 1704067200000
         (returned (saveAsJson Date_parse_utc ''now'' [commit_a1]
            (Some (Document (Some [commit_a1, commit_b2]))))) = [commit_a1]"
proof -
  let ?file = "Some (Document (Some [commit_a1]))"
  let ?file2 = "Some (Document (Some [commit_a1, commit_b2]))"
  have h1: "\<forall>a \<in> set (prior_record ?file) \<union> set [commit_c3, commit_b2].
      new_Date Date_parse_utc (date a) \<noteq> None"
    by (simp add: eval_dates example_defs)
  have h2: "\<forall>a \<in> set (prior_record ?file2) \<union> set [commit_a1].
      new_Date Date_parse_utc (date a) \<noteq> None"
    by (simp add: eval_dates example_defs)
  have d: "filteredData (saveAsJson Date_parse_utc ''now'' [commit_c3, commit_b2] ?file)
             = [commit_c3, commit_b2]"
    by (simp add: eval_json example_defs)
  have d2: "filteredData (saveAsJson Date_parse_utc ''now'' [commit_a1] ?file2) = []"
    by (simp add: eval_json example_defs)
  have r: "returned (saveAsJson Date_parse_utc ''now'' [commit_c3, commit_b2] ?file)
             = [commit_b2, commit_a1, commit_c3]"
    by (simp add: eval_json eval_dates example_defs)
  have t: "dated Date_parse_utc 1704067200000 [commit_a1] = [commit_a1]"
      "dated Date_parse_utc 1704067200000 [commit_c3, commit_b2] = [commit_c3]"
      "dated Date_parse_utc 1704067200000 [commit_a1, commit_b2] = [commit_a1]"
    by (simp_all add: dated_def eval_dates example_defs)
  show ?thesis
    using C5_sorted_and_stable [OF h1, of "''now''" 1704067200000]
      C5_sorted_and_stable [OF h2, of "''now''" 1704067200000] h1 d d2 r t
    by simp
qed

section \<open>Properties of the collection\<close>

lemma sha_mr_commit_activity [simp]: "sha (mr_commit_activity mr c) = c_id c"
  by (simp add: mr_commit_activity_def)

lemma sha_branch_commit_activity: "branch_commit_activity b c = Inr a \<Longrightarrow> sha a = c_id c"
  by (auto simp: branch_commit_activity_def Let_def split: jsval.splits)

lemma mr_commits_loop_consistent:
  "consistent st \<Longrightarrow> consistent (mr_commits_loop email mr cs st)"
proof (induction cs arbitrary: st)
  case Nil
  then show ?case by simp
next
  case (Cons c cs)
  obtain seen acc where st: "st = (seen, acc)" by (cases st)
  show ?case
  proof (cases "c_author_email c = email \<and> c_id c \<notin> seen")
    case True
    have "consistent (insert (c_id c) seen, acc @ [mr_commit_activity mr c])"
      using Cons.prems True unfolding st consistent_def by auto
    then show ?thesis
      using True Cons.IH unfolding st by simp
  next
    case False
    then show ?thesis
      using Cons unfolding st by auto
  qed
qed

lemma mr_loop_consistent:
  "consistent (fst s) \<Longrightarrow> consistent (fst (mr_loop api email ms s))"
proof (induction ms arbitrary: s)
  case Nil
  then show ?case by simp
next
  case (Cons mr ms)
  obtain st logs where s: "s = (st, logs)" by (cases s)
  show ?case
    using Cons unfolding s
    by (cases "merge_request_commits api (iid mr)") (simp_all add: mr_commits_loop_consistent)
qed

lemma branch_commits_loop_consistent:
  "consistent st \<Longrightarrow> distinct (map sha (snd (fst (branch_commits_loop email b cs st))))"
proof (induction cs arbitrary: st)
  case Nil
  then show ?case by (simp add: consistent_def)
next
  case (Cons c cs)
  obtain seen acc where st: "st = (seen, acc)" by (cases st)
  show ?case
  proof (cases "c_author_email c = email \<and> c_id c \<notin> seen")
    case True
    show ?thesis
    proof (cases "branch_commit_activity b c")
      case (Inl e)
      then show ?thesis using True Cons.prems unfolding st by (simp add: consistent_def)
    next
      case (Inr a)
      have "consistent (insert (c_id c) seen, acc @ [a])"
        using Cons.prems True sha_branch_commit_activity [OF Inr] unfolding st consistent_def by auto
      then show ?thesis
        using True Inr Cons.IH unfolding st by simp
    qed
  next
    case False
    then show ?thesis
      using Cons unfolding st by auto
  qed
qed

lemma branch_commits_loop_consistent':
  "consistent st \<Longrightarrow> snd (branch_commits_loop email b cs st) = None
     \<Longrightarrow> consistent (fst (branch_commits_loop email b cs st))"
proof (induction cs arbitrary: st)
  case Nil
  then show ?case by simp
next
  case (Cons c cs)
  obtain seen acc where st: "st = (seen, acc)" by (cases st)
  show ?case
  proof (cases "c_author_email c = email \<and> c_id c \<notin> seen")
    case True
    show ?thesis
    proof (cases "branch_commit_activity b c")
      case (Inl e)
      then show ?thesis using True Cons.prems unfolding st by simp
    next
      case (Inr a)
      have "consistent (insert (c_id c) seen, acc @ [a])"
        using Cons.prems True sha_branch_commit_activity [OF Inr] unfolding st consistent_def by auto
      then show ?thesis
        using True Inr Cons.IH Cons.prems(2) unfolding st by simp
    qed
  next
    case False
    then show ?thesis
      using Cons unfolding st by auto
  qed
qed

lemma branch_loop_distinct:
  "consistent st \<Longrightarrow> distinct (map sha (snd (fst (branch_loop api email bs st))))"
proof (induction bs arbitrary: st)
  case Nil
  then show ?case by (simp add: consistent_def)
next
  case (Cons b bs)
  show ?case
  proof (cases "branch_commits api b")
    case None
    then show ?thesis using Cons.prems by (simp add: consistent_def)
  next
    case (Some cs)
    obtain st' e where r: "branch_commits_loop email b cs st = (st', e)"
      by (cases "branch_commits_loop email b cs st")
    show ?thesis
    proof (cases e)
      case None
      then have "consistent st'"
        using branch_commits_loop_consistent' [OF Cons.prems, of email b cs] r by simp
      then show ?thesis using Some r None Cons.IH by simp
    next
      case (Some x)
      then show ?thesis
        using \<open>branch_commits api b = Some cs\<close> r
          branch_commits_loop_consistent [OF Cons.prems, of email b cs] by simp
    qed
  qed
qed

lemma getCommits_fst:
  "fst (getCommitsWithCorrectBranch api email ms) =
     (case branch_names api of
        None \<Rightarrow> snd (after_mrs api email ms)
      | Some bs \<Rightarrow> snd (fst (branch_loop api email bs (after_mrs api email ms))))"
  by (auto simp: getCommitsWithCorrectBranch_def after_mrs_def split: prod.splits option.splits)

lemma after_mrs_consistent: "consistent (after_mrs api email ms)"
  unfolding after_mrs_def by (rule mr_loop_consistent) (simp add: consistent_def)

lemma getCommits_distinct:
  "distinct (map sha (fst (getCommitsWithCorrectBranch api email ms)))"
proof (cases "branch_names api")
  case None
  then show ?thesis
    using after_mrs_consistent [of api email ms] by (simp add: getCommits_fst consistent_def)
next
  case (Some bs)
  then show ?thesis
    using branch_loop_distinct [OF after_mrs_consistent]
    by (simp add: getCommits_fst)
qed

lemma match_into_nonempty: "match_into s = Some g \<Longrightarrow> g \<noteq> []"
  by (auto simp: match_into_def Let_def split: if_splits)

lemma dot_star_into_nonempty: "dot_star_into s = Some g \<Longrightarrow> g \<noteq> []"
  by (induction s) (auto split: if_splits option.splits dest: match_into_nonempty)

lemma name_then_rest_nonempty: "name_then_rest g1 s = Some (n, g) \<Longrightarrow> g \<noteq> []"
  by (induction g1 s rule: name_then_rest.induct)
     (auto split: if_splits option.splits dest: dot_star_into_nonempty)

lemma match_here_nonempty: "match_here s = Some (n, g) \<Longrightarrow> g \<noteq> []"
  by (auto simp: match_here_def split: if_splits list.splits dest: name_then_rest_nonempty)

lemma title_match_nonempty: "title_match s = Some (n, g) \<Longrightarrow> g \<noteq> []"
  by (induction s) (auto split: option.splits dest: match_here_nonempty)

text \<open>
  The matcher on the plain form of a merge title: a name without quotes, then
  \<^verbatim>\<open>into\<close> and a target without spaces, on one line.
\<close>

lemma plain_not_at_line_terminator: "plain c \<Longrightarrow> \<not> at_line_terminator (c # cs)"
  by (simp add: plain_def at_line_terminator_def)

lemma line_rest_plain: "\<forall>c \<in> set s. plain c \<Longrightarrow> line_rest s = s"
  by (induction s) (simp_all add: plain_not_at_line_terminator)

lemma match_into_needs_space: "CHR '' '' \<notin> set s \<Longrightarrow> match_into s = None"
proof -
  assume a: "CHR '' '' \<notin> set s"
  have "take 5 s \<noteq> ''into ''"
  proof
    assume "take 5 s = ''into ''"
    then have "CHR '' '' \<in> set (take 5 s)" by simp
    then show False using a by (meson in_set_takeD)
  qed
  then show ?thesis by (simp add: match_into_def)
qed

lemma dot_star_into_needs_space: "CHR '' '' \<notin> set s \<Longrightarrow> dot_star_into s = None"
  by (induction s) (auto simp: match_into_needs_space)

lemma dot_star_into_simple:
  assumes "tgt \<noteq> []" and "CHR '' '' \<notin> set tgt" and "\<forall>c \<in> set tgt. plain c"
  shows "dot_star_into ('' into '' @ tgt) = Some tgt"
proof -
  have t: "line_rest tgt = tgt"
    using assms(3) by (rule line_rest_plain)
  have n: "dot_star_into tgt = None"
    using assms(2) by (rule dot_star_into_needs_space)
  have lt: "\<not> at_line_terminator (CHR '' '' # s)" "\<not> at_line_terminator (CHR ''i'' # s)"
      "\<not> at_line_terminator (CHR ''n'' # s)" "\<not> at_line_terminator (CHR ''t'' # s)"
      "\<not> at_line_terminator (CHR ''o'' # s)" for s
    by (simp_all add: at_line_terminator_def)
  show ?thesis
    using assms(1) by (simp add: n t lt match_into_def Let_def)
qed

lemma name_then_rest_simple:
  assumes "\<forall>c \<in> set cs. c \<noteq> quote \<and> plain c" and "dot_star_into rest = Some r"
  shows "name_then_rest g (cs @ quote # rest) = Some (g @ cs, r)"
  using assms by (induction cs arbitrary: g) (simp_all add: plain_not_at_line_terminator)

lemma title_match_simple:
  assumes "name \<noteq> []" and "\<forall>c \<in> set name. c \<noteq> quote \<and> plain c"
    and "tgt \<noteq> []" and "CHR '' '' \<notin> set tgt" and "\<forall>c \<in> set tgt. plain c"
  shows "title_match (''Merge branch '' @ [quote] @ name @ [quote] @ '' into '' @ tgt)
           = Some (name, tgt)"
proof -
  obtain c cs where name: "name = c # cs" using assms(1) by (cases name) auto
  have d: "dot_star_into ('' into '' @ tgt) = Some tgt"
    using assms(3,4,5) by (rule dot_star_into_simple)
  have cs: "\<forall>c \<in> set cs. c \<noteq> quote \<and> plain c"
    using assms(2) name by simp
  have "name_then_rest [c] (cs @ quote # ('' into '' @ tgt)) = Some ([c] @ cs, tgt)"
    using cs d by (rule name_then_rest_simple)
  then have "match_here (''Merge branch '' @ [quote] @ name @ [quote] @ '' into '' @ tgt)
               = Some (name, tgt)"
    using assms(2) name by (simp add: match_here_def plain_not_at_line_terminator)
  then show ?thesis by simp
qed

text \<open>The second group ends where U+2028 begins.\<close>

lemma title_match_stops_at_U2028:
  "title_match (''Merge branch 'a' into b'' @ [CHR 0xE2, CHR 0x80, CHR 0xA8] @ ''c'')
     = Some (''a'', ''b'')"
  by (simp add: match_here_def match_into_def quote_def at_line_terminator_def)

lemma mr_commits_loop_all:
  assumes "\<forall>a \<in> set (snd st). Q a"
    and "\<forall>c \<in> set cs. c_author_email c = email \<longrightarrow> Q (mr_commit_activity mr c)"
  shows "\<forall>a \<in> set (snd (mr_commits_loop email mr cs st)). Q a"
  using assms
proof (induction cs arbitrary: st)
  case Nil
  then show ?case by simp
next
  case (Cons c cs)
  obtain seen acc where st: "st = (seen, acc)" by (cases st)
  show ?case
  proof (cases "c_author_email c = email \<and> c_id c \<notin> seen")
    case True
    have "\<forall>a \<in> set (snd (insert (c_id c) seen, acc @ [mr_commit_activity mr c])). Q a"
      using Cons.prems True unfolding st by simp
    moreover have "\<forall>c \<in> set cs. c_author_email c = email \<longrightarrow> Q (mr_commit_activity mr c)"
      using Cons.prems(2) by simp
    ultimately have "\<forall>a \<in> set (snd (mr_commits_loop email mr cs
        (insert (c_id c) seen, acc @ [mr_commit_activity mr c]))). Q a"
      by (rule Cons.IH)
    then show ?thesis
      using True unfolding st by simp
  next
    case False
    have "\<forall>c \<in> set cs. c_author_email c = email \<longrightarrow> Q (mr_commit_activity mr c)"
      using Cons.prems(2) by simp
    with Cons.prems(1) have "\<forall>a \<in> set (snd (mr_commits_loop email mr cs st)). Q a"
      by (rule Cons.IH)
    then show ?thesis
      using False unfolding st by auto
  qed
qed

lemma mr_loop_all:
  assumes "\<forall>a \<in> set (snd (fst s)). Q a"
    and "\<forall>mr \<in> set ms. \<forall>cs. merge_request_commits api (iid mr) = Some cs \<longrightarrow>
           (\<forall>c \<in> set cs. c_author_email c = email \<longrightarrow> Q (mr_commit_activity mr c))"
  shows "\<forall>a \<in> set (snd (fst (mr_loop api email ms s))). Q a"
  using assms
proof (induction ms arbitrary: s)
  case Nil
  then show ?case by simp
next
  case (Cons mr ms)
  obtain st logs where s: "s = (st, logs)" by (cases s)
  have rest: "\<forall>mr \<in> set ms. \<forall>cs. merge_request_commits api (iid mr) = Some cs \<longrightarrow>
           (\<forall>c \<in> set cs. c_author_email c = email \<longrightarrow> Q (mr_commit_activity mr c))"
    using Cons.prems(2) by simp
  show ?case
  proof (cases "merge_request_commits api (iid mr)")
    case None
    have "\<forall>a \<in> set (snd (fst (st, logs @ [Warn_mr_commits (iid mr)]))). Q a"
      using Cons.prems(1) unfolding s by simp
    then have "\<forall>a \<in> set (snd (fst (mr_loop api email ms (st, logs @ [Warn_mr_commits (iid mr)])))). Q a"
      using rest by (rule Cons.IH)
    then show ?thesis using None unfolding s by simp
  next
    case (Some cs)
    have "\<forall>a \<in> set (snd (mr_commits_loop email mr cs st)). Q a"
      using Cons.prems Some unfolding s by (intro mr_commits_loop_all) simp_all
    then have "\<forall>a \<in> set (snd (fst (mr_commits_loop email mr cs st, logs))). Q a"
      by simp
    then have "\<forall>a \<in> set (snd (fst (mr_loop api email ms (mr_commits_loop email mr cs st, logs)))). Q a"
      using rest by (rule Cons.IH)
    then show ?thesis
      using Some unfolding s by simp
  qed
qed

lemma mr_commits_loop_mono: "fst st \<subseteq> fst (mr_commits_loop email mr cs st)"
proof (induction cs arbitrary: st)
  case Nil
  then show ?case by simp
next
  case (Cons c cs)
  obtain seen acc where st: "st = (seen, acc)" by (cases st)
  show ?case
    using Cons [of "(insert (c_id c) seen, acc @ [mr_commit_activity mr c])"] Cons [of "(seen, acc)"]
    unfolding st by auto
qed

lemma mr_commits_loop_covers:
  "c \<in> set cs \<Longrightarrow> c_author_email c = email \<Longrightarrow> c_id c \<in> fst (mr_commits_loop email mr cs st)"
proof (induction cs arbitrary: st)
  case Nil
  then show ?case by simp
next
  case (Cons c' cs)
  obtain seen acc where st: "st = (seen, acc)" by (cases st)
  show ?case
  proof (cases "c = c'")
    case True
    show ?thesis
    proof (cases "c_id c \<in> seen")
      case True
      then show ?thesis
        using \<open>c = c'\<close> mr_commits_loop_mono [of "(seen, acc)" email mr cs] unfolding st by auto
    next
      case False
      then show ?thesis
        using \<open>c = c'\<close> Cons.prems(2)
          mr_commits_loop_mono [of "(insert (c_id c) seen, acc @ [mr_commit_activity mr c])" email mr cs]
        unfolding st by auto
    qed
  next
    case False
    then have "c \<in> set cs" using Cons.prems by simp
    then show ?thesis
      using Cons.IH Cons.prems(2) unfolding st by simp
  qed
qed

lemma mr_loop_mono: "fst (fst s) \<subseteq> fst (fst (mr_loop api email ms s))"
proof (induction ms arbitrary: s)
  case Nil
  then show ?case by simp
next
  case (Cons mr ms)
  obtain st logs where s: "s = (st, logs)" by (cases s)
  show ?case
  proof (cases "merge_request_commits api (iid mr)")
    case None
    then show ?thesis using Cons [of "(st, logs @ [Warn_mr_commits (iid mr)])"] unfolding s by simp
  next
    case (Some cs)
    then show ?thesis
      using Cons [of "(mr_commits_loop email mr cs st, logs)"] mr_commits_loop_mono [of st email mr cs]
      unfolding s by auto
  qed
qed

lemma mr_loop_covers:
  assumes "mr \<in> set ms" and "merge_request_commits api (iid mr) = Some cs"
    and "c \<in> set cs" and "c_author_email c = email"
  shows "c_id c \<in> fst (fst (mr_loop api email ms s))"
  using assms(1)
proof (induction ms arbitrary: s)
  case Nil
  then show ?case by simp
next
  case (Cons mr' ms)
  obtain st logs where s: "s = (st, logs)" by (cases s)
  show ?case
  proof (cases "mr = mr'")
    case True
    have "c_id c \<in> fst (mr_commits_loop email mr cs st)"
      using assms(3,4) by (rule mr_commits_loop_covers)
    then show ?thesis
      using True assms(2) mr_loop_mono [of "(mr_commits_loop email mr cs st, logs)" api email ms]
      unfolding s by auto
  next
    case False
    then have "mr \<in> set ms" using Cons.prems by simp
    then show ?thesis
      using Cons.IH unfolding s by (cases "merge_request_commits api (iid mr')") simp_all
  qed
qed


lemma branch_commits_loop_mono:
  "fst st \<subseteq> fst (fst (branch_commits_loop email b cs st))
   \<and> set (snd st) \<subseteq> set (snd (fst (branch_commits_loop email b cs st)))"
proof (induction cs arbitrary: st)
  case Nil
  then show ?case by simp
next
  case (Cons c cs)
  obtain seen acc where st: "st = (seen, acc)" by (cases st)
  show ?case
  proof (cases "c_author_email c = email \<and> c_id c \<notin> seen")
    case True
    show ?thesis
    proof (cases "branch_commit_activity b c")
      case (Inl e)
      then show ?thesis using True unfolding st by auto
    next
      case (Inr a)
      then show ?thesis
        using True Cons [of "(insert (c_id c) seen, acc @ [a])"] unfolding st by auto
    qed
  next
    case False
    then show ?thesis
      using Cons [of "(seen, acc)"] unfolding st by auto
  qed
qed

lemma branch_commits_loop_all:
  assumes "\<forall>a \<in> set (snd st). Q a"
    and "\<forall>c a. c_id c \<notin> fst st \<longrightarrow> branch_commit_activity b c = Inr a \<longrightarrow> Q a"
  shows "\<forall>a \<in> set (snd (fst (branch_commits_loop email b cs st))). Q a"
  using assms
proof (induction cs arbitrary: st)
  case Nil
  then show ?case by simp
next
  case (Cons c cs)
  obtain seen acc where st: "st = (seen, acc)" by (cases st)
  show ?case
  proof (cases "c_author_email c = email \<and> c_id c \<notin> seen")
    case True
    show ?thesis
    proof (cases "branch_commit_activity b c")
      case (Inl e)
      then show ?thesis using True Cons.prems(1) unfolding st by simp
    next
      case (Inr a)
      have "Q a" using Cons.prems(2) True Inr unfolding st by auto
      then have 1: "\<forall>x \<in> set (snd (insert (c_id c) seen, acc @ [a])). Q x"
        using Cons.prems(1) unfolding st by simp
      have 2: "\<forall>c' a'. c_id c' \<notin> fst (insert (c_id c) seen, acc @ [a])
                 \<longrightarrow> branch_commit_activity b c' = Inr a' \<longrightarrow> Q a'"
        using Cons.prems(2) unfolding st by auto
      have "\<forall>x \<in> set (snd (fst (branch_commits_loop email b cs (insert (c_id c) seen, acc @ [a])))). Q x"
        using 1 2 by (rule Cons.IH)
      then show ?thesis
        using True Inr unfolding st by simp
    qed
  next
    case False
    have "\<forall>x \<in> set (snd (fst (branch_commits_loop email b cs st))). Q x"
      using Cons.prems by (rule Cons.IH)
    then show ?thesis
      using False unfolding st by auto
  qed
qed

lemma branch_loop_mono:
  "set (snd st) \<subseteq> set (snd (fst (branch_loop api email bs st)))"
proof (induction bs arbitrary: st)
  case Nil
  then show ?case by simp
next
  case (Cons b bs)
  show ?case
  proof (cases "branch_commits api b")
    case None
    then show ?thesis by simp
  next
    case (Some cs)
    obtain st' e where r: "branch_commits_loop email b cs st = (st', e)"
      by (cases "branch_commits_loop email b cs st")
    have m: "set (snd st) \<subseteq> set (snd st')"
      using branch_commits_loop_mono [of st email b cs] r by simp
    show ?thesis
      using Some r m Cons [of st'] by (cases e) auto
  qed
qed

lemma branch_loop_all:
  assumes "\<forall>a \<in> set (snd st). Q a"
    and "\<forall>b c a. c_id c \<notin> fst st \<longrightarrow> branch_commit_activity b c = Inr a \<longrightarrow> Q a"
  shows "\<forall>a \<in> set (snd (fst (branch_loop api email bs st))). Q a"
  using assms
proof (induction bs arbitrary: st)
  case Nil
  then show ?case by simp
next
  case (Cons b bs)
  show ?case
  proof (cases "branch_commits api b")
    case None
    then show ?thesis using Cons.prems(1) by simp
  next
    case (Some cs)
    obtain st' e where r: "branch_commits_loop email b cs st = (st', e)"
      by (cases "branch_commits_loop email b cs st")
    have "\<forall>c a. c_id c \<notin> fst st \<longrightarrow> branch_commit_activity b c = Inr a \<longrightarrow> Q a"
      using Cons.prems(2) by blast
    with Cons.prems(1) have "\<forall>a \<in> set (snd (fst (branch_commits_loop email b cs st))). Q a"
      by (rule branch_commits_loop_all)
    then have 1: "\<forall>a \<in> set (snd st'). Q a"
      using r by simp
    have "fst st \<subseteq> fst st'"
      using branch_commits_loop_mono [of st email b cs] r by simp
    then have 2: "\<forall>b c a. c_id c \<notin> fst st' \<longrightarrow> branch_commit_activity b c = Inr a \<longrightarrow> Q a"
      using Cons.prems(2) by blast
    have "\<forall>a \<in> set (snd (fst (branch_loop api email bs st'))). Q a"
      using 1 2 by (rule Cons.IH)
    then show ?thesis
      using Some r 1 by (cases e) simp_all
  qed
qed

lemma getCommits_all:
  assumes "\<forall>a \<in> set (snd (after_mrs api email ms)). Q a"
    and "\<forall>b c a. c_id c \<notin> fst (after_mrs api email ms) \<longrightarrow> branch_commit_activity b c = Inr a \<longrightarrow> Q a"
  shows "\<forall>a \<in> set (fst (getCommitsWithCorrectBranch api email ms)). Q a"
proof (cases "branch_names api")
  case None
  then show ?thesis using assms(1) by (simp add: getCommits_fst)
next
  case (Some bs)
  have "\<forall>a \<in> set (snd (fst (branch_loop api email bs (after_mrs api email ms)))). Q a"
    using assms by (rule branch_loop_all)
  then show ?thesis using Some by (simp add: getCommits_fst)
qed

lemma getCommits_keeps:
  "set (snd (after_mrs api email ms)) \<subseteq> set (fst (getCommitsWithCorrectBranch api email ms))"
  using branch_loop_mono [of "after_mrs api email ms" api email]
  by (cases "branch_names api") (simp_all add: getCommits_fst)

lemma after_mrs_all:
  assumes "\<forall>mr \<in> set ms. \<forall>cs. merge_request_commits api (iid mr) = Some cs \<longrightarrow>
           (\<forall>c \<in> set cs. c_author_email c = email \<longrightarrow> Q (mr_commit_activity mr c))"
  shows "\<forall>a \<in> set (snd (after_mrs api email ms)). Q a"
  unfolding after_mrs_def using _ assms by (rule mr_loop_all) simp

lemma after_mrs_covers:
  assumes "mr \<in> set ms" and "merge_request_commits api (iid mr) = Some cs"
    and "c \<in> set cs" and "c_author_email c = email"
  shows "c_id c \<in> fst (after_mrs api email ms)"
  unfolding after_mrs_def using assms by (rule mr_loop_covers)

lemmas eval_collect = getCommitsWithCorrectBranch_def mr_commit_activity_def
  branch_commit_activity_def match_here_def match_into_def quote_def at_line_terminator_def
  me_def commit_x1_def commit_m1_def mr_3_def example_mr_def example_project_def example_fork_def
  Let_def

lemma example_project_commits:
  "fst (getCommitsWithCorrectBranch example_project me [mr_3]) =
     [mr_commit_activity mr_3 commit_x1,
      \<lparr>iid = JUndefined, sha = JStr ''m1'', source = JUndefined, target = JUndefined,
       title = JStr ''Merge branch 'feat/login' into develop'',
       date = JStr ''2024-06-11T09:00:00Z'',
       type = JStr ''Commit'', project = JUndefined,
       branch = JStr ''develop'', target_branch = JStr ''develop'',
       from_merge_request = JBool False, mr_source = JNull, mr_target = JNull\<rparr>]"
  by (simp add: eval_collect)

text \<open>
  Claim C9, as it is stated, fails: \<^verbatim>\<open>seenCommits\<close> is a local of
  \<^verbatim>\<open>getCommitsWithCorrectBranch\<close>, created anew for every project. A commit that two
  projects share, as a project and its fork do, is in the batch twice.
\<close>

theorem C9_two_projects_counterexample:
  "\<not> distinct (map sha (filter (\<lambda>a. type a = JStr ''Commit'')
        (collect_activities me [example_project, example_fork])))"
  by (simp add: project_activities_def mr_activity_def eval_collect)

text \<open>
  Claim C9, amended. Among the entries that one project contributes to the batch, every
  commit \<^verbatim>\<open>sha\<close> appears at most once, whichever merge request or branch produced it.
\<close>

theorem C9_sha_once_per_project:
  "distinct (map sha (filter (\<lambda>a. type a = JStr ''Commit'') (fst (project_activities email p))))"
proof -
  obtain commits logs1 where g: "getCommitsWithCorrectBranch p email
      (case merge_requests p of None \<Rightarrow> [] | Some ms \<Rightarrow> ms) = (commits, logs1)"
    by (cases "getCommitsWithCorrectBranch p email (case merge_requests p of None \<Rightarrow> [] | Some ms \<Rightarrow> ms)")
  have d: "distinct (map sha commits)"
    using getCommits_distinct [of p email "case merge_requests p of None \<Rightarrow> [] | Some ms \<Rightarrow> ms"] g
    by simp
  have 1: "filter (\<lambda>a. type a = JStr ''Commit'') (map (mr_activity n) ms) = []" for n ms
    by (induction ms) (simp_all add: mr_activity_def)
  have 2: "map sha (filter (\<lambda>a. type a = JStr ''Commit'') (map (\<lambda>c. c\<lparr>project := n\<rparr>) cs))
             = map sha (filter (\<lambda>a. type a = JStr ''Commit'') cs)" for n cs
    by (induction cs) simp_all
  have "distinct (map sha (filter (\<lambda>a. type a = JStr ''Commit'') commits))"
    using d by (rule distinct_map_filter)
  then show ?thesis
    using g by (cases "merge_requests p") (simp_all add: project_activities_def 1 2)
qed


text \<open>The example project contributes two commit entries, \<^verbatim>\<open>x1\<close> and \<^verbatim>\<open>m1\<close>.\<close>

theorem C9_sha_once_per_project_witness:
  "map sha (filter (\<lambda>a. type a = JStr ''Commit'') (fst (project_activities me example_project)))
     = [JStr ''x1'', JStr ''m1'']
   \<and> distinct (map sha (filter (\<lambda>a. type a = JStr ''Commit'')
        (fst (project_activities me example_project))))"
proof -
  have "map sha (filter (\<lambda>a. type a = JStr ''Commit'') (fst (project_activities me example_project)))
     = [JStr ''x1'', JStr ''m1'']"
    by (simp add: project_activities_def mr_activity_def eval_collect)
  then show ?thesis
    using C9_sha_once_per_project [of me example_project] by simp
qed

text \<open>
  Claim C3. Let a commit authored by the user be in the fetched commit list of one of the
  merge requests. Then an entry with its \<^verbatim>\<open>sha\<close> is emitted, and every emitted entry with
  that \<^verbatim>\<open>sha\<close> carries the attribution of a merge request whose fetched list holds the
  commit: \<^verbatim>\<open>branch\<close> and \<^verbatim>\<open>mr_source\<close> are its source, \<^verbatim>\<open>target_branch\<close> and \<^verbatim>\<open>mr_target\<close> its
  target, \<^verbatim>\<open>from_merge_request\<close> is true. This holds whatever the branch walk finds, so
  no entry with the attribution of the branch walk is emitted for that \<^verbatim>\<open>sha\<close>.
\<close>

theorem C3_merge_request_attribution_wins:
  assumes "mr \<in> set mergeRequests"
    and "merge_request_commits api (iid mr) = Some commits"
    and "commit \<in> set commits"
    and "c_author_email commit = userEmail"
  shows "(\<exists>a \<in> set (fst (getCommitsWithCorrectBranch api userEmail mergeRequests)). sha a = c_id commit)
       \<and> (\<forall>a \<in> set (fst (getCommitsWithCorrectBranch api userEmail mergeRequests)).
            sha a = c_id commit \<longrightarrow>
              (\<exists>mr' \<in> set mergeRequests. \<exists>cs.
                  merge_request_commits api (iid mr') = Some cs \<and> c_id commit \<in> c_id ` set cs
                  \<and> attributed_to mr' a))"
proof -
  let ?R = "\<lambda>a. \<exists>mr' \<in> set mergeRequests. \<exists>cs.
                  merge_request_commits api (iid mr') = Some cs \<and> sha a \<in> c_id ` set cs
                  \<and> attributed_to mr' a"
  let ?st = "after_mrs api userEmail mergeRequests"
  have seen: "c_id commit \<in> fst ?st"
    using assms by (rule after_mrs_covers)
  have "consistent ?st" by (rule after_mrs_consistent)
  then obtain a where a: "a \<in> set (snd ?st)" "sha a = c_id commit"
    using seen unfolding consistent_def by auto
  then have ex: "\<exists>a \<in> set (fst (getCommitsWithCorrectBranch api userEmail mergeRequests)). sha a = c_id commit"
    using getCommits_keeps [of api userEmail mergeRequests] by blast
  have old: "\<forall>a \<in> set (snd ?st). ?R a"
  proof (rule after_mrs_all, intro ballI allI impI)
    fix mr' cs c
    assume "mr' \<in> set mergeRequests" "merge_request_commits api (iid mr') = Some cs"
      "c \<in> set cs" "c_author_email c = userEmail"
    moreover have "attributed_to mr' (mr_commit_activity mr' c)"
      by (simp add: attributed_to_def mr_commit_activity_def)
    ultimately show "?R (mr_commit_activity mr' c)"
      by auto
  qed
  then have 1: "\<forall>a \<in> set (snd ?st). sha a = c_id commit \<longrightarrow> ?R a"
    by blast
  have 2: "\<forall>b c a. c_id c \<notin> fst ?st \<longrightarrow> branch_commit_activity b c = Inr a
             \<longrightarrow> (sha a = c_id commit \<longrightarrow> ?R a)"
    using seen by (auto dest: sha_branch_commit_activity)
  have "\<forall>a \<in> set (fst (getCommitsWithCorrectBranch api userEmail mergeRequests)).
          sha a = c_id commit \<longrightarrow> ?R a"
    using 1 2 by (rule getCommits_all)
  then show ?thesis
    using ex by auto
qed


text \<open>
  The commit \<^verbatim>\<open>x1\<close> is in the merge request from \<^verbatim>\<open>feat\<close> to \<^verbatim>\<open>main\<close> and on the branch
  \<^verbatim>\<open>feat\<close>.
\<close>

theorem C3_merge_request_attribution_witness:
  "mr_3 \<in> set [mr_3]
   \<and> merge_request_commits example_project (iid mr_3) = Some [commit_x1]
   \<and> branch_commits example_project (JStr ''feat'') = Some [commit_x1]
   \<and> commit_x1 \<in> set [commit_x1]
   \<and> c_author_email commit_x1 = me
   \<and> (\<exists>a \<in> set (fst (getCommitsWithCorrectBranch example_project me [mr_3])). sha a = JStr ''x1'')
   \<and> list_all (\<lambda>a. branch a = JStr ''feat'' \<and> target_branch a = JStr ''main''
                     \<and> from_merge_request a = JBool True)
         (filter (\<lambda>a. sha a = JStr ''x1'')
            (fst (getCommitsWithCorrectBranch example_project me [mr_3])))"
proof -
  have h1: "mr_3 \<in> set [mr_3]" by simp
  have h2: "merge_request_commits example_project (iid mr_3) = Some [commit_x1]"
    by (simp add: example_project_def mr_3_def example_mr_def)
  have h3: "commit_x1 \<in> set [commit_x1]" by simp
  have h4: "c_author_email commit_x1 = me" by (simp add: commit_x1_def)
  have h5: "branch_commits example_project (JStr ''feat'') = Some [commit_x1]"
    by (simp add: example_project_def)
  have x: "c_id commit_x1 = JStr ''x1''" by (simp add: commit_x1_def)
  have m: "source mr_3 = JStr ''feat''" "target mr_3 = JStr ''main''"
    by (simp_all add: mr_3_def example_mr_def)
  show ?thesis
    using C3_merge_request_attribution_wins [OF h1 h2 h3 h4] h1 h2 h3 h4 h5
    unfolding x by (auto simp: attributed_to_def m list_all_iff)
qed

lemma after_mrs_seen: "fst (after_mrs api email ms) \<subseteq> fetched_by_mrs api email ms"
proof -
  have "\<forall>a \<in> set (snd (after_mrs api email ms)). sha a \<in> fetched_by_mrs api email ms"
  proof (rule after_mrs_all, intro ballI allI impI)
    fix mr cs c
    assume "mr \<in> set ms" "merge_request_commits api (iid mr) = Some cs"
      "c \<in> set cs" "c_author_email c = email"
    then show "sha (mr_commit_activity mr c) \<in> fetched_by_mrs api email ms"
      unfolding fetched_by_mrs_def by force
  qed
  moreover have "fst (after_mrs api email ms) = sha ` set (snd (after_mrs api email ms))"
    using after_mrs_consistent [of api email ms] by (simp add: consistent_def)
  ultimately show ?thesis by auto
qed

lemma branch_commits_loop_all_mem:
  assumes "\<forall>a \<in> set (snd st). Q a"
    and "\<forall>c \<in> set cs. \<forall>a. branch_commit_activity b c = Inr a \<longrightarrow> Q a"
  shows "\<forall>a \<in> set (snd (fst (branch_commits_loop email b cs st))). Q a"
  using assms
proof (induction cs arbitrary: st)
  case Nil
  then show ?case by simp
next
  case (Cons c cs)
  obtain seen acc where st: "st = (seen, acc)" by (cases st)
  have rest: "\<forall>c \<in> set cs. \<forall>a. branch_commit_activity b c = Inr a \<longrightarrow> Q a"
    using Cons.prems(2) by simp
  show ?case
  proof (cases "c_author_email c = email \<and> c_id c \<notin> seen")
    case True
    show ?thesis
    proof (cases "branch_commit_activity b c")
      case (Inl e)
      then show ?thesis using True Cons.prems(1) unfolding st by simp
    next
      case (Inr a)
      have "Q a" using Cons.prems(2) Inr by simp
      then have 1: "\<forall>x \<in> set (snd (insert (c_id c) seen, acc @ [a])). Q x"
        using Cons.prems(1) unfolding st by simp
      have "\<forall>x \<in> set (snd (fst (branch_commits_loop email b cs (insert (c_id c) seen, acc @ [a])))). Q x"
        using 1 rest by (rule Cons.IH)
      then show ?thesis
        using True Inr unfolding st by simp
    qed
  next
    case False
    have "\<forall>x \<in> set (snd (fst (branch_commits_loop email b cs st))). Q x"
      using Cons.prems(1) rest by (rule Cons.IH)
    then show ?thesis
      using False unfolding st by auto
  qed
qed

lemma branch_loop_all_mem:
  assumes "\<forall>a \<in> set (snd st). Q a"
    and "\<forall>b \<in> set bs. \<forall>cs. branch_commits api b = Some cs \<longrightarrow>
           (\<forall>c \<in> set cs. \<forall>a. branch_commit_activity b c = Inr a \<longrightarrow> Q a)"
  shows "\<forall>a \<in> set (snd (fst (branch_loop api email bs st))). Q a"
  using assms
proof (induction bs arbitrary: st)
  case Nil
  then show ?case by simp
next
  case (Cons b bs)
  have rest: "\<forall>b \<in> set bs. \<forall>cs. branch_commits api b = Some cs \<longrightarrow>
           (\<forall>c \<in> set cs. \<forall>a. branch_commit_activity b c = Inr a \<longrightarrow> Q a)"
    using Cons.prems(2) by simp
  show ?case
  proof (cases "branch_commits api b")
    case None
    then show ?thesis using Cons.prems(1) by simp
  next
    case (Some cs)
    obtain st' e where r: "branch_commits_loop email b cs st = (st', e)"
      by (cases "branch_commits_loop email b cs st")
    have "\<forall>c \<in> set cs. \<forall>a. branch_commit_activity b c = Inr a \<longrightarrow> Q a"
      using Cons.prems(2) Some by simp
    with Cons.prems(1) have "\<forall>a \<in> set (snd (fst (branch_commits_loop email b cs st))). Q a"
      by (rule branch_commits_loop_all_mem)
    then have 1: "\<forall>a \<in> set (snd st'). Q a"
      using r by simp
    have "\<forall>a \<in> set (snd (fst (branch_loop api email bs st'))). Q a"
      using 1 rest by (rule Cons.IH)
    then show ?thesis
      using Some r 1 by (cases e) simp_all
  qed
qed

lemma branch_commits_loop_complete:
  assumes "consistent st"
    and "list_all (\<lambda>c. case c_title c of JStr s \<Rightarrow> True | _ \<Rightarrow> False) cs"
  shows "snd (branch_commits_loop email b cs st) = None
       \<and> (\<forall>c \<in> set cs. c_author_email c = email
             \<longrightarrow> c_id c \<in> fst (fst (branch_commits_loop email b cs st)))"
  using assms
proof (induction cs arbitrary: st)
  case Nil
  then show ?case by simp
next
  case (Cons c cs)
  obtain seen acc where st: "st = (seen, acc)" by (cases st)
  obtain s where title: "c_title c = JStr s"
    using Cons.prems(2) by (auto split: jsval.splits)
  have rest: "list_all (\<lambda>c. case c_title c of JStr s \<Rightarrow> True | _ \<Rightarrow> False) cs"
    using Cons.prems(2) by simp
  show ?case
  proof (cases "c_author_email c = email \<and> c_id c \<notin> seen")
    case True
    obtain a where a: "branch_commit_activity b c = Inr a"
      using title by (simp add: branch_commit_activity_def Let_def)
    let ?st = "(insert (c_id c) seen, acc @ [a])"
    have c: "consistent ?st"
      using Cons.prems(1) True sha_branch_commit_activity [OF a] unfolding st consistent_def by auto
    have ih: "snd (branch_commits_loop email b cs ?st) = None
       \<and> (\<forall>c \<in> set cs. c_author_email c = email
             \<longrightarrow> c_id c \<in> fst (fst (branch_commits_loop email b cs ?st)))"
      using c rest by (rule Cons.IH)
    have "c_id c \<in> fst (fst (branch_commits_loop email b cs ?st))"
      using branch_commits_loop_mono [of ?st email b cs] by auto
    then show ?thesis
      using True a ih unfolding st by simp
  next
    case False
    have ih: "snd (branch_commits_loop email b cs st) = None
       \<and> (\<forall>c \<in> set cs. c_author_email c = email
             \<longrightarrow> c_id c \<in> fst (fst (branch_commits_loop email b cs st)))"
      using Cons.prems(1) rest by (rule Cons.IH)
    have "fst st \<subseteq> fst (fst (branch_commits_loop email b cs st))"
      using branch_commits_loop_mono [of st email b cs] by simp
    then have "c_author_email c = email \<longrightarrow> c_id c \<in> fst (fst (branch_commits_loop email b cs st))"
      using False unfolding st by auto
    then show ?thesis
      using False ih unfolding st by auto
  qed
qed

lemma branch_loop_mono_seen: "fst st \<subseteq> fst (fst (branch_loop api email bs st))"
proof (induction bs arbitrary: st)
  case Nil
  then show ?case by simp
next
  case (Cons b bs)
  show ?case
  proof (cases "branch_commits api b")
    case None
    then show ?thesis by simp
  next
    case (Some cs)
    obtain st' e where r: "branch_commits_loop email b cs st = (st', e)"
      by (cases "branch_commits_loop email b cs st")
    have m: "fst st \<subseteq> fst st'"
      using branch_commits_loop_mono [of st email b cs] r by simp
    show ?thesis
      using Some r m Cons [of st'] by (cases e) auto
  qed
qed

lemma branch_loop_complete:
  assumes "consistent st" and "walk_completes api bs"
  shows "consistent (fst (branch_loop api email bs st))
       \<and> (\<forall>b \<in> set bs. \<forall>cs. branch_commits api b = Some cs \<longrightarrow>
            (\<forall>c \<in> set cs. c_author_email c = email
               \<longrightarrow> c_id c \<in> fst (fst (branch_loop api email bs st))))"
  using assms
proof (induction bs arbitrary: st)
  case Nil
  then show ?case by simp
next
  case (Cons b bs)
  obtain cs where cs: "branch_commits api b = Some cs"
      and titles: "list_all (\<lambda>c. case c_title c of JStr s \<Rightarrow> True | _ \<Rightarrow> False) cs"
    using Cons.prems(2) by (auto simp: walk_completes_def split: option.splits)
  have rest: "walk_completes api bs"
    using Cons.prems(2) by (simp add: walk_completes_def)
  obtain st' e where r: "branch_commits_loop email b cs st = (st', e)"
    by (cases "branch_commits_loop email b cs st")
  have comp: "e = None \<and> (\<forall>c \<in> set cs. c_author_email c = email \<longrightarrow> c_id c \<in> fst st')"
    using branch_commits_loop_complete [OF Cons.prems(1) titles, of email b] r by simp
  then have e: "e = None" by simp
  have c': "consistent st'"
    using branch_commits_loop_consistent' [OF Cons.prems(1), of email b cs] r e by simp
  have ih: "consistent (fst (branch_loop api email bs st'))
       \<and> (\<forall>b \<in> set bs. \<forall>cs. branch_commits api b = Some cs \<longrightarrow>
            (\<forall>c \<in> set cs. c_author_email c = email
               \<longrightarrow> c_id c \<in> fst (fst (branch_loop api email bs st'))))"
    using c' rest by (rule Cons.IH)
  have step: "branch_loop api email (b # bs) st = branch_loop api email bs st'"
    using cs r e by simp
  have "fst st' \<subseteq> fst (fst (branch_loop api email bs st'))"
    by (rule branch_loop_mono_seen)
  then have here: "\<forall>c \<in> set cs. c_author_email c = email
               \<longrightarrow> c_id c \<in> fst (fst (branch_loop api email bs st'))"
    using comp by auto
  show ?case
    unfolding step using ih here cs by auto
qed

text \<open>
  Claim C7. Let a commit of the user be listed on a walked branch and in no fetched list of
  a merge request: it is found only by the walk over the branches. Let its title match
  \<^verbatim>\<open>/Merge branch '(.+?)'.*into (.+)/\<close>, on every branch that lists it. Then every entry
  emitted for it has the second group of the match as its \<^verbatim>\<open>branch\<close> and as its
  \<^verbatim>\<open>target_branch\<close>, and \<^verbatim>\<open>from_merge_request\<close> false; the group is never empty, so the
  name of the branch it was found on is not used. When the walk runs to its end, such an
  entry is emitted.
\<close>

theorem C7_merge_title_attribution:
  assumes "branch_names api = Some branches"
    and "branch_name \<in> set branches"
    and "branch_commits api branch_name = Some commits"
    and "commit \<in> set commits"
    and "c_author_email commit = userEmail"
    and only_walk: "c_id commit \<notin> fetched_by_mrs api userEmail mergeRequests"
    and "c_title commit = JStr t"
    and "title_match t = Some (name, tgt)"
    and same: "\<forall>b \<in> set branches. \<forall>cs. branch_commits api b = Some cs \<longrightarrow>
                 (\<forall>c \<in> set cs. c_id c = c_id commit \<longrightarrow> c_title c = c_title commit)"
  shows "(\<forall>a \<in> set (fst (getCommitsWithCorrectBranch api userEmail mergeRequests)).
            sha a = c_id commit \<longrightarrow>
              branch a = JStr tgt \<and> target_branch a = JStr tgt
              \<and> from_merge_request a = JBool False)
       \<and> (walk_completes api branches \<longrightarrow>
            (\<exists>a \<in> set (fst (getCommitsWithCorrectBranch api userEmail mergeRequests)).
               sha a = c_id commit))"
proof -
  let ?st = "after_mrs api userEmail mergeRequests"
  let ?Q = "\<lambda>a. sha a = c_id commit \<longrightarrow>
              branch a = JStr tgt \<and> target_branch a = JStr tgt
              \<and> from_merge_request a = JBool False"
  have res: "fst (getCommitsWithCorrectBranch api userEmail mergeRequests)
               = snd (fst (branch_loop api userEmail branches ?st))"
    using assms(1) by (simp add: getCommits_fst)
  have unseen: "c_id commit \<notin> fst ?st"
    using only_walk after_mrs_seen [of api userEmail mergeRequests] by auto
  have cons: "consistent ?st" by (rule after_mrs_consistent)
  have "sha a \<noteq> c_id commit" if "a \<in> set (snd ?st)" for a
  proof -
    have "sha a \<in> fst ?st"
      using cons that unfolding consistent_def by simp
    then show ?thesis using unseen by auto
  qed
  then have 1: "\<forall>a \<in> set (snd ?st). ?Q a"
    by blast
  have ne: "tgt \<noteq> []"
    using assms(8) by (rule title_match_nonempty)
  have 2: "\<forall>b \<in> set branches. \<forall>cs. branch_commits api b = Some cs \<longrightarrow>
           (\<forall>c \<in> set cs. \<forall>a. branch_commit_activity b c = Inr a \<longrightarrow> ?Q a)"
  proof (intro ballI allI impI)
    fix b cs c a
    assume b: "b \<in> set branches" "branch_commits api b = Some cs" "c \<in> set cs"
      and a: "branch_commit_activity b c = Inr a" and s: "sha a = c_id commit"
    have "c_id c = c_id commit"
      using sha_branch_commit_activity [OF a] s by simp
    then have "c_title c = JStr t"
      using same b assms(7) by auto
    then show "branch a = JStr tgt \<and> target_branch a = JStr tgt
               \<and> from_merge_request a = JBool False"
      using a assms(8) ne by (auto simp: branch_commit_activity_def Let_def)
  qed
  have part1: "\<forall>a \<in> set (snd (fst (branch_loop api userEmail branches ?st))). ?Q a"
    using 1 2 by (rule branch_loop_all_mem)
  have part2: "\<exists>a \<in> set (snd (fst (branch_loop api userEmail branches ?st))). sha a = c_id commit"
    if w: "walk_completes api branches"
  proof -
    have c: "consistent (fst (branch_loop api userEmail branches ?st))"
      and cov: "\<forall>b \<in> set branches. \<forall>cs. branch_commits api b = Some cs \<longrightarrow>
            (\<forall>c \<in> set cs. c_author_email c = userEmail
               \<longrightarrow> c_id c \<in> fst (fst (branch_loop api userEmail branches ?st)))"
      using branch_loop_complete [OF cons w, of userEmail] by simp_all
    have "c_id commit \<in> fst (fst (branch_loop api userEmail branches ?st))"
      using cov assms(2,3,4,5) by auto
    then show ?thesis
      using c unfolding consistent_def by auto
  qed
  show ?thesis
    unfolding res using part1 part2 by blast
qed


text \<open>
  The commit \<^verbatim>\<open>m1\<close>, titled \<^verbatim>\<open>Merge branch 'feat/login' into develop\<close>, is on the branch
  \<^verbatim>\<open>main\<close> and in no merge request.
\<close>

theorem C7_merge_title_witness:
  "branch_names example_project = Some [JStr ''feat'', JStr ''main'']
   \<and> branch_commits example_project (JStr ''main'') = Some [commit_m1]
   \<and> c_author_email commit_m1 = me
   \<and> c_id commit_m1 \<notin> fetched_by_mrs example_project me [mr_3]
   \<and> c_title commit_m1 = JStr ''Merge branch 'feat/login' into develop''
   \<and> title_match ''Merge branch 'feat/login' into develop'' = Some (''feat/login'', ''develop'')
   \<and> walk_completes example_project [JStr ''feat'', JStr ''main'']
   \<and> list_all (\<lambda>a. branch a = JStr ''develop'' \<and> target_branch a = JStr ''develop''
                     \<and> from_merge_request a = JBool False)
         (filter (\<lambda>a. sha a = JStr ''m1'')
            (fst (getCommitsWithCorrectBranch example_project me [mr_3])))
   \<and> (\<exists>a \<in> set (fst (getCommitsWithCorrectBranch example_project me [mr_3])).
         sha a = JStr ''m1'')"
proof -
  have h1: "branch_names example_project = Some [JStr ''feat'', JStr ''main'']"
    by (simp add: example_project_def)
  have h2: "JStr ''main'' \<in> set [JStr ''feat'', JStr ''main'']" by simp
  have h3: "branch_commits example_project (JStr ''main'') = Some [commit_m1]"
    by (simp add: example_project_def)
  have h4: "commit_m1 \<in> set [commit_m1]" by simp
  have h5: "c_author_email commit_m1 = me" by (simp add: commit_m1_def)
  have h6: "c_id commit_m1 \<notin> fetched_by_mrs example_project me [mr_3]"
    by (auto simp: fetched_by_mrs_def example_project_def mr_3_def example_mr_def commit_m1_def
        commit_x1_def)
  have h7: "c_title commit_m1 = JStr ''Merge branch 'feat/login' into develop''"
    by (simp add: commit_m1_def)
  have h8: "title_match ''Merge branch 'feat/login' into develop''
              = Some (''feat/login'', ''develop'')"
    by (simp add: match_here_def match_into_def quote_def at_line_terminator_def)
  have h9: "\<forall>b \<in> set [JStr ''feat'', JStr ''main'']. \<forall>cs.
      branch_commits example_project b = Some cs \<longrightarrow>
        (\<forall>c \<in> set cs. c_id c = c_id commit_m1 \<longrightarrow> c_title c = c_title commit_m1)"
    by (auto simp: example_project_def commit_m1_def commit_x1_def)
  have w: "walk_completes example_project [JStr ''feat'', JStr ''main'']"
    by (simp add: walk_completes_def example_project_def commit_m1_def commit_x1_def)
  have x: "c_id commit_m1 = JStr ''m1''" by (simp add: commit_m1_def)
  show ?thesis
    using C7_merge_title_attribution [OF h1 h2 h3 h4 h5 h6 h7 h8 h9] h1 h3 h5 h6 h7 h8 w
    unfolding x by (auto simp: list_all_iff)
qed

section \<open>Properties of the text report\<close>

lemma map_fst_push_day:
  "map fst (push_day k item g) = (if k \<in> set (map fst g) then map fst g else map fst g @ [k])"
proof (induction g)
  case Nil
  then show ?case by simp
next
  case (Cons e g)
  obtain k' xs where e: "e = (k', xs)" by (cases e)
  show ?case
  proof (cases "k' = k")
    case True
    then show ?thesis unfolding e by simp
  next
    case False
    then show ?thesis using Cons unfolding e by simp
  qed
qed

lemma keys_push_day: "fst ` set (push_day k item g) = insert k (fst ` set g)"
proof -
  have "set (map fst (push_day k item g)) = insert k (set (map fst g))"
    unfolding map_fst_push_day by auto
  then show ?thesis by simp
qed

lemma keys_foldl_push_day:
  "fst ` set (foldl (\<lambda>g item. push_day (f (date item)) item g) acc items)
     = fst ` set acc \<union> (\<lambda>item. f (date item)) ` set items"
  by (induction items arbitrary: acc) (auto simp: keys_push_day)

lemma keys_groupByDay:
  "fst ` set (groupByDay f items) = (\<lambda>item. f (date item)) ` set items"
  unfolding groupByDay_def keys_foldl_push_day by simp

lemma md_is_new_absent: "md_is_new (extractExistingIds scan None) item"
  by (simp add: md_is_new_def extractExistingIds_def)

text \<open>
  When the engine reads every label as a date, the sections come in descending order of
  what it reads.
\<close>

lemma sections_descending_when_labels_parse:
  assumes "\<forall>item \<in> set items. parse (format_day (date item)) \<noteq> None"
    and "saveGroupedToMarkdown parse format_day scan items file = Some sections"
  shows "sorted (map (\<lambda>s. - the (parse (day s))) sections)"
proof -
  let ?filtered = "filter (md_is_new (extractExistingIds scan file)) items"
  let ?k = "\<lambda>e :: string \<times> activity list. new_Date parse (JStr (fst e))"
  have s: "sections = map section_of (js_sort (by_label_desc parse) (groupByDay format_day ?filtered))"
    using assms(2) by (simp add: saveGroupedToMarkdown_def Let_def split: if_splits)
  have c: "by_label_desc parse = (\<lambda>a b. date_minus (?k b) (?k a))"
    by (intro ext) (simp add: by_label_desc_def)
  have "?k e \<noteq> None" if "e \<in> set (groupByDay format_day ?filtered)" for e
  proof -
    have "fst e \<in> (\<lambda>item. format_day (date item)) ` set ?filtered"
      using that keys_groupByDay [of format_day ?filtered] by blast
    then show ?thesis using assms(1) by auto
  qed
  then have "js_sort (by_label_desc parse) (groupByDay format_day ?filtered)
               = sort_key (\<lambda>e. - the (?k e)) (groupByDay format_day ?filtered)"
    unfolding c by (intro js_sort_by_key) simp
  moreover have "sorted (map (\<lambda>e. - the (?k e)) (sort_key (\<lambda>e. - the (?k e)) (groupByDay format_day ?filtered)))"
    by (rule sorted_sort_key)
  ultimately show ?thesis
    unfolding s by (simp add: comp_def section_of_def)
qed

text \<open>
  Claim C2. The sections are sorted by \<^verbatim>\<open>new Date\<close> of their labels, not by the dates of
  their entries. When the engine reads none of the labels of a batch as a date, every
  comparison is NaN and the sections are emitted in the order in which their days first
  appear in the batch, whatever the days are: the order the claim states is not
  established.
\<close>

theorem C2_unparsed_labels_keep_batch_order:
  assumes "\<forall>item \<in> set items. parse (format_day (date item)) = None" and "items \<noteq> []"
  shows "saveGroupedToMarkdown parse format_day scan items None
           = Some (map section_of (groupByDay format_day items))"
proof -
  have f: "filter (md_is_new (extractExistingIds scan None)) items = items"
    by (simp add: md_is_new_absent)
  have "parse (fst e) = None" if "e \<in> set (groupByDay format_day items)" for e
  proof -
    have "fst e \<in> (\<lambda>item. format_day (date item)) ` set items"
      using that keys_groupByDay [of format_day items] by blast
    then show ?thesis using assms(1) by auto
  qed
  then have "\<forall>x \<in> set (groupByDay format_day items). \<forall>y \<in> set (groupByDay format_day items).
               by_label_desc parse x y = None"
    by (simp add: by_label_desc_def)
  then have "js_sort (by_label_desc parse) (groupByDay format_day items) = groupByDay format_day items"
    by (rule js_sort_all_NaN)
  then show ?thesis
    using assms(2) by (simp add: saveGroupedToMarkdown_def f)
qed


text \<open>
  A commit of Tuesday 14 May 2024 comes before a commit of Wednesday 15 May 2024 in the
  batch, and there is no report yet. Neither label has the form of a date-time string. The
  section of 14 May is emitted first.
\<close>

theorem C2_unparsed_labels_witness:
  "Date_parse_utc (format_day_may (date commit_d14)) = None
   \<and> Date_parse_utc (format_day_may (date commit_d15)) = None
   \<and> [commit_d14, commit_d15] \<noteq> []
   \<and> saveGroupedToMarkdown Date_parse_utc format_day_may (\<lambda>content. ({}, {}))
        [commit_d14, commit_d15] None
       = Some [\<lparr>day = ''Selasa, 14 Mei 2024'', commit_lines = [commit_d14], mr_lines = []\<rparr>,
               \<lparr>day = ''Rabu, 15 Mei 2024'', commit_lines = [commit_d15], mr_lines = []\<rparr>]"
proof -
  have h1: "\<forall>item \<in> set [commit_d14, commit_d15]. Date_parse_utc (format_day_may (date item)) = None"
    by (simp add: commit_d14_def commit_d15_def example_commit_def format_day_may_def
        Date_parse_utc_def)
  have h2: "[commit_d14, commit_d15] \<noteq> []" by simp
  have g: "map section_of (groupByDay format_day_may [commit_d14, commit_d15])
      = [\<lparr>day = ''Selasa, 14 Mei 2024'', commit_lines = [commit_d14], mr_lines = []\<rparr>,
         \<lparr>day = ''Rabu, 15 Mei 2024'', commit_lines = [commit_d15], mr_lines = []\<rparr>]"
    by (simp add: groupByDay_def section_of_def commit_d14_def commit_d15_def example_commit_def
        format_day_may_def)
  show ?thesis
    using C2_unparsed_labels_keep_batch_order [OF h1 h2, of "\<lambda>content. ({}, {})"] h1 g by simp
qed

section \<open>Properties of the structured record, whatever the file holds\<close>

lemma add_identities_objects:
  "add_identities \<lparr>shas_any = shas e, mrs_any = mrs e, data_any = d\<rparr> (map Obj xs)
     = (\<lparr>shas_any = shas (foldl add_identity e xs), mrs_any = mrs (foldl add_identity e xs),
          data_any = d\<rparr>, None)"
proof (induction xs arbitrary: e)
  case Nil
  then show ?case by simp
next
  case (Cons x xs)
  let ?e = "add_identity e x"
  have ih: "add_identities \<lparr>shas_any = shas ?e, mrs_any = mrs ?e, data_any = d\<rparr> (map Obj xs)
     = (\<lparr>shas_any = shas (foldl add_identity ?e xs), mrs_any = mrs (foldl add_identity ?e xs),
          data_any = d\<rparr>, None)"
    by (rule Cons.IH)
  have step: "add_identities \<lparr>shas_any = shas e, mrs_any = mrs e, data_any = d\<rparr> (map Obj (x # xs))
     = add_identities \<lparr>shas_any = shas ?e, mrs_any = mrs ?e, data_any = d\<rparr> (map Obj xs)"
    by (simp add: add_identity_def mr_key_def)
  show ?case
    unfolding step ih by simp
qed

lemma extract_any_of:
  "extractExistingFromJson_any (map_option any_of file)
     = (\<lparr>shas_any = shas (fst (extractExistingFromJson file)),
          mrs_any = mrs (fst (extractExistingFromJson file)),
          data_any = Elements (map Obj (data (fst (extractExistingFromJson file))))\<rparr>,
        snd (extractExistingFromJson file))"
proof (cases "file")
  case None
  then show ?thesis
    by (simp add: extractExistingFromJson_any_def extractExistingFromJson_def
        existing_any_empty_def existing_empty_def)
next
  case (Some c)
  show ?thesis
  proof (cases c)
    case (Unparseable msg)
    then show ?thesis
      using Some
      by (simp add: extractExistingFromJson_any_def extractExistingFromJson_def any_of_def
          JSON_parse_any_def JSON_parse_def existing_any_empty_def existing_empty_def)
  next
    case (Document d)
    show ?thesis
    proof (cases d)
      case None
      then show ?thesis
        using Some Document
        by (simp add: extractExistingFromJson_any_def extractExistingFromJson_def any_of_def
            JSON_parse_any_def JSON_parse_def existing_any_empty_def existing_empty_def)
    next
      case (Some xs)
      have "add_identities \<lparr>shas_any = shas (existing_empty\<lparr>data := xs\<rparr>),
              mrs_any = mrs (existing_empty\<lparr>data := xs\<rparr>), data_any = Elements (map Obj xs)\<rparr>
              (map Obj xs)
            = (\<lparr>shas_any = shas (foldl add_identity (existing_empty\<lparr>data := xs\<rparr>) xs),
                 mrs_any = mrs (foldl add_identity (existing_empty\<lparr>data := xs\<rparr>) xs),
                 data_any = Elements (map Obj xs)\<rparr>, None)"
        by (rule add_identities_objects)
      then show ?thesis
        using \<open>file = Some c\<close> Document Some
        by (simp add: extractExistingFromJson_any_def extractExistingFromJson_def any_of_def
            JSON_parse_any_def JSON_parse_def existing_any_empty_def existing_empty_def
            foldl_add_identity_data)
    qed
  qed
qed

lemma js_insert_map_Obj:
  "js_insert (by_date_desc_any parse) (Obj x) (map Obj ys)
     = map Obj (js_insert (by_date_desc parse) x ys)"
  by (induction ys)
     (simp_all add: SortCompare_def by_date_desc_any_def by_date_desc_def field_def)

lemma js_sort_map_Obj:
  "js_sort (by_date_desc_any parse) (map Obj xs) = map Obj (js_sort (by_date_desc parse) xs)"
  by (induction xs) (simp_all add: js_insert_map_Obj)

lemma no_throw_map_Obj: "\<not> list_ex throws (map Obj xs)"
  by (induction xs) (simp_all add: throws_def)

lemma is_new_any_eq:
  "is_new_any \<lparr>shas_any = shas ex, mrs_any = mrs ex, data_any = d\<rparr> = is_new ex"
  by (intro ext) (simp add: is_new_any_def is_new_def)

lemma saveAsJson_any_of:
  "saveAsJson_any parse now batch (map_option any_of file)
     = Inr (result_any_of (saveAsJson parse now batch file))"
proof -
  obtain ex logs where e: "extractExistingFromJson file = (ex, logs)"
    by (cases "extractExistingFromJson file")
  have a: "extractExistingFromJson_any (map_option any_of file)
             = (\<lparr>shas_any = shas ex, mrs_any = mrs ex, data_any = Elements (map Obj (data ex))\<rparr>, logs)"
    using extract_any_of [of "file"] e by simp
  show ?thesis
    unfolding saveAsJson_any_def saveAsJson_def a e
    by (simp add: Let_def is_new_any_eq result_any_of_def output_any_of_def js_sort_map_Obj
        no_throw_map_Obj comp_def field_def flip: map_append)
qed

text \<open>
  An absent file, a content that \<^verbatim>\<open>JSON.parse\<close> rejects and the content \<^verbatim>\<open>null\<close> give
  empty sets and empty data, the last two with a warning.
\<close>

lemma any_absent_or_rejected:
  "extractExistingFromJson_any None = (existing_any_empty, [])
   \<and> extractExistingFromJson_any (Some (Rejected msg))
       = (existing_any_empty, [Warn_could_not_parse msg])
   \<and> extractExistingFromJson_any (Some (Parsed Root_null))
       = (existing_any_empty, [Warn_could_not_parse ''TypeError''])"
  by (simp add: extractExistingFromJson_any_def JSON_parse_any_def)

text \<open>
  Claim C8 fails on a content that \<^verbatim>\<open>JSON.parse\<close> accepts and whose \<^verbatim>\<open>activities\<close> is not
  an array of objects. For \<^verbatim>\<open>{"activities": 5}\<close> the function warns and returns the data
  \<^verbatim>\<open>5\<close>; \<open>saveAsJson\<close> then throws where it spreads it. For an array that holds \<^verbatim>\<open>a1\<close>,
  \<^verbatim>\<open>null\<close> and \<^verbatim>\<open>b2\<close> the function warns and returns the three elements as data, with
  the identity of \<^verbatim>\<open>a1\<close> alone; \<open>saveAsJson\<close> then throws when a new item makes it sort.
\<close>

theorem C8_shape_mismatch_keeps_data:
  "extractExistingFromJson_any (Some (Parsed (Root (Some (Other five)))))
     = (\<lparr>shas_any = {}, mrs_any = {}, data_any = Other five\<rparr>,
        [Warn_could_not_parse ''TypeError''])
   \<and> saveAsJson_any Date_parse_utc ''now'' [commit_b2] (Some (Parsed (Root (Some (Other five)))))
       = Inl TypeError
   \<and> extractExistingFromJson_any
         (Some (Parsed (Root (Some (Elements [Obj commit_a1, Prim JNull, Obj commit_b2])))))
       = (\<lparr>shas_any = {JStr ''a1''}, mrs_any = {},
            data_any = Elements [Obj commit_a1, Prim JNull, Obj commit_b2]\<rparr>,
          [Warn_could_not_parse ''TypeError''])
   \<and> saveAsJson_any Date_parse_utc ''now'' [commit_c3]
         (Some (Parsed (Root (Some (Elements [Obj commit_a1, Prim JNull, Obj commit_b2])))))
       = Inl TypeError"
  by (simp add: extractExistingFromJson_any_def saveAsJson_any_def JSON_parse_any_def
      existing_any_empty_def five_def is_new_any_def throws_def example_defs Let_def)

end
